theory Spec2Isabelle
  imports Complex_Main
begin

section \<open>Python values\<close>

text \<open>
  A Python \<open>str\<close> is a sequence of Unicode code points; a code point is a natural number.
  \<open>text_of\<close> turns an ASCII literal into such a sequence. A timeout is the rational number
  of seconds it denotes. Exceptions are values of \<open>exn\<close>: \<open>Empty\<close> is \<open>queue.Empty\<close>, \<open>PoolUnavailable\<close> is the
  \<open>Exception\<close> that \<open>get_db\<close> raises when it gets no connection, \<open>DatabaseError\<close> and
  \<open>ProgrammingError\<close> are those of \<open>sqlite3\<close>, and \<open>RuntimeError\<close> carries its message.
\<close>

type_synonym pystr = "nat list"

definition text_of :: "string \<Rightarrow> pystr" where
  "text_of s = map of_char s"

datatype exn =
    ZeroDivisionError
  | OverflowError
  | ValueError
  | Empty
  | KeyError
  | RuntimeError pystr
  | PoolUnavailable
  | DatabaseError
  | ProgrammingError

section \<open>Word normalization: \<^verbatim>\<open>core/utils.py\<close>\<close>

text \<open>
  \<open>is_space\<close> is the set of code points that \<open>str.strip()\<close> removes (those with
  \<open>str.isspace()\<close>). \<open>strip\<close> removes them at both ends.
\<close>

definition is_space :: "nat \<Rightarrow> bool" where
  "is_space c = ((9 \<le> c \<and> c \<le> 13) \<or> (28 \<le> c \<and> c \<le> 32) \<or> c = 133 \<or> c = 160
     \<or> c = 5760 \<or> (8192 \<le> c \<and> c \<le> 8202) \<or> c = 8232 \<or> c = 8233
     \<or> c = 8239 \<or> c = 8287 \<or> c = 12288)"

definition lstrip :: "pystr \<Rightarrow> pystr" where
  "lstrip s = dropWhile is_space s"

fun rstrip :: "pystr \<Rightarrow> pystr" where
  "rstrip [] = []"
| "rstrip (c # cs) =
     (case rstrip cs of [] \<Rightarrow> (if is_space c then [] else [c]) | d # ds \<Rightarrow> c # d # ds)"

definition strip :: "pystr \<Rightarrow> pystr" where
  "strip s = rstrip (lstrip s)"

text \<open>The character class \<^verbatim>\<open>[A-Za-z\-']\<close> of the pattern in \<open>normalize_word\<close>.\<close>

definition word_char :: "nat \<Rightarrow> bool" where
  "word_char c = ((65 \<le> c \<and> c \<le> 90) \<or> (97 \<le> c \<and> c \<le> 122) \<or> c = 45 \<or> c = 39)"

abbreviation nonword :: "nat \<Rightarrow> bool" where
  "nonword \<equiv> (\<lambda>d. \<not> word_char d)"

text \<open>
  \<^verbatim>\<open>re.sub(r"[^A-Za-z\-']+", " ", text)\<close>: scanning from the left, every greedy match of one
  or more characters outside the class is replaced by one space (code point 32).
\<close>

function re_sub_nonword :: "pystr \<Rightarrow> pystr" where
  "re_sub_nonword [] = []"
| "re_sub_nonword (c # cs) =
     (if word_char c then c # re_sub_nonword cs
      else 32 # re_sub_nonword (dropWhile nonword cs))"
  by pat_completeness auto
termination
  by (relation "measure length") (auto simp: length_dropWhile_le less_Suc_eq_le)

text \<open>
  \<open>str.lower()\<close> on the code points that can reach it in \<open>normalize_word\<close>: after the
  substitution the text holds only ASCII letters, hyphen, apostrophe and space, where
  lowering is the ASCII one. Other code points are left as they are.
\<close>

definition lower_char :: "nat \<Rightarrow> nat" where
  "lower_char c = (if 65 \<le> c \<and> c \<le> 90 then c + 32 else c)"

definition lower :: "pystr \<Rightarrow> pystr" where
  "lower s = map lower_char s"

definition normalize_word :: "pystr option \<Rightarrow> pystr" where
  "normalize_word w =
     (case w of
        None \<Rightarrow> []
      | Some t \<Rightarrow> lower (strip (re_sub_nonword (strip t))))"

section \<open>The progress store: \<^verbatim>\<open>core/loading.py\<close>\<close>

text \<open>
  The state dictionary of \<open>LoadingStateStore\<close>, one field per key (the key
  \<open>file\<close> is the field \<open>file'\<close>). The lock is not modelled:
  every method is one atomic step. \<open>datetime.utcnow()\<close> is an input of each method (the
  argument \<open>now\<close>); a timestamp is the clock reading itself.
\<close>

type_synonym instant = nat

text \<open>
  A Python \<open>float\<close> is a finite value, given by the rational it denotes (the sign of zero is
  not kept), an infinity or a NaN. The float arithmetic of the platform is a parameter
  \<open>F\<close> of the store's functions: \<open>fdiv F a b\<close> is the float that \<open>a / b\<close> gives for
  integers with \<open>b\<close> not zero, \<open>None\<close> when that division raises \<open>OverflowError\<close>, and
  \<open>fmul F\<close> is the product of two floats. \<open>exact_arith\<close> is arithmetic without rounding
  and without a largest float; it gives what the platform gives wherever the exact
  results are floats themselves. A function written without \<open>_with\<close> is the one with
  \<open>_with\<close> under \<open>exact_arith\<close>.
\<close>

datatype pyfloat = Finite rat | PosInf | NegInf | NaN

record float_arith =
  fdiv :: "int \<Rightarrow> int \<Rightarrow> pyfloat option"
  fmul :: "pyfloat \<Rightarrow> pyfloat \<Rightarrow> pyfloat"

definition exact_arith :: float_arith where
  "exact_arith =
     \<lparr>fdiv = (\<lambda>a b. Some (Finite (of_int a / of_int b))),
      fmul = (\<lambda>x y. case x of
                       Finite a \<Rightarrow> (case y of Finite b \<Rightarrow> Finite (a * b) | _ \<Rightarrow> y)
                     | _ \<Rightarrow> x)\<rparr>"

record loading_fields =
  running :: bool
  file' :: "pystr option"
  current_sheet :: "pystr option"
  processed_words :: int
  total_words :: int
  percent :: pyfloat
  error :: "pystr option"
  latest_words :: "pystr list"
  timestamp :: "instant option"

definition DEFAULT_STATE :: loading_fields where
  "DEFAULT_STATE =
     \<lparr>running = False, file' = None, current_sheet = None, processed_words = 0,
      total_words = 0, percent = Finite 0, error = None, latest_words = [], timestamp = None\<rparr>"

text \<open>\<open>snapshot\<close> returns a deep copy (a JSON round trip) and leaves the store as it is.\<close>

definition snapshot :: "loading_fields \<Rightarrow> loading_fields" where
  "snapshot st = st"

definition reset_for_file :: "instant \<Rightarrow> pystr \<Rightarrow> int \<Rightarrow> loading_fields \<Rightarrow> loading_fields" where
  "reset_for_file now file_name total_rows st =
     DEFAULT_STATE
       \<lparr>running := True, file' := Some file_name, current_sheet := None, processed_words := 0,
        total_words := total_rows, percent := Finite 0, error := None, latest_words := [],
        timestamp := Some now\<rparr>"

definition set_current_sheet :: "instant \<Rightarrow> pystr option \<Rightarrow> loading_fields \<Rightarrow> loading_fields" where
  "set_current_sheet now name st = st\<lparr>current_sheet := name, timestamp := Some now\<rparr>"

text \<open>
  Python's true division \<open>a / b\<close> on integers raises \<open>ZeroDivisionError\<close> on a zero
  divisor. Otherwise it is the float nearest to the quotient, or \<open>OverflowError\<close> when the
  quotient is too large for a float: that part is \<open>fdiv\<close> of the float arithmetic at hand.
\<close>

definition py_truediv :: "float_arith \<Rightarrow> int \<Rightarrow> int \<Rightarrow> exn + pyfloat" where
  "py_truediv F a b =
     (if b = 0 then Inl ZeroDivisionError
      else case fdiv F a b of None \<Rightarrow> Inl OverflowError | Some q \<Rightarrow> Inr q)"

text \<open>The expression \<^verbatim>\<open>(processed / total * 100.0) if total > 0 else 0.0\<close>.\<close>

definition percent_expr_with :: "float_arith \<Rightarrow> int \<Rightarrow> int \<Rightarrow> exn + pyfloat" where
  "percent_expr_with F processed tot =
     (if tot > 0
      then (case py_truediv F processed tot of
              Inl e \<Rightarrow> Inl e
            | Inr q \<Rightarrow> Inr (fmul F q (Finite 100)))
      else Inr (Finite 0))"

abbreviation percent_expr :: "int \<Rightarrow> int \<Rightarrow> exn + pyfloat" where
  "percent_expr \<equiv> percent_expr_with exact_arith"

text \<open>
  The slice \<open>xs[i:]\<close>: a negative start counts from the end and is clamped at the front, so
  \<open>xs[-k:]\<close> keeps the last \<open>k\<close> elements for \<open>k > 0\<close>, and \<open>xs[-0:]\<close> is \<open>xs[0:]\<close>, all of
  \<open>xs\<close>.
\<close>

definition slice_from :: "int \<Rightarrow> 'a list \<Rightarrow> 'a list" where
  "slice_from i xs =
     (if i < 0 then drop (nat (int (length xs) + i)) xs else drop (nat i) xs)"

text \<open>
  \<open>increment_processed\<close> mutates the dictionary key by key, so the assignments made before
  an exception stay: the result is the exception or the returned count, together with the
  store as the call leaves it. The first argument is the float arithmetic.
\<close>

definition increment_processed_with ::
  "float_arith \<Rightarrow> instant \<Rightarrow> int \<Rightarrow> pystr option \<Rightarrow> int \<Rightarrow> int \<Rightarrow> loading_fields
     \<Rightarrow> (exn + int) \<times> loading_fields"
where
  "increment_processed_with F now increment sample_word sample_step latest_limit st =
     (let processed = processed_words st + increment;
          st1 = st\<lparr>processed_words := processed\<rparr>;
          tot = total_words st1
      in case percent_expr_with F processed tot of
           Inl e \<Rightarrow> (Inl e, st1)
         | Inr p \<Rightarrow>
             (let st2 = st1\<lparr>percent := p\<rparr>
              in case sample_word of
                   None \<Rightarrow> (Inr processed, st2\<lparr>timestamp := Some now\<rparr>)
                 | Some sw \<Rightarrow>
                     if sw \<noteq> [] \<and> strip sw \<noteq> [] then
                       (if sample_step = 0 then (Inl ZeroDivisionError, st2)
                        else if processed mod sample_step = 0 then
                          (let latest = latest_words st2 @ [sw];
                               latest' = (if int (length latest) > latest_limit
                                          then slice_from (- latest_limit) latest
                                          else latest)
                           in (Inr processed,
                               st2\<lparr>latest_words := latest', timestamp := Some now\<rparr>))
                        else (Inr processed, st2\<lparr>timestamp := Some now\<rparr>))
                     else (Inr processed, st2\<lparr>timestamp := Some now\<rparr>)))"

abbreviation increment_processed ::
  "instant \<Rightarrow> int \<Rightarrow> pystr option \<Rightarrow> int \<Rightarrow> int \<Rightarrow> loading_fields \<Rightarrow> (exn + int) \<times> loading_fields"
where
  "increment_processed \<equiv> increment_processed_with exact_arith"

definition mark_finished :: "instant \<Rightarrow> pystr option \<Rightarrow> loading_fields \<Rightarrow> loading_fields" where
  "mark_finished now err st =
     (let st1 = st\<lparr>running := False\<rparr>;
          st2 = (case err of
                   None \<Rightarrow> st1
                 | Some e \<Rightarrow> if e \<noteq> [] then st1\<lparr>error := Some e\<rparr> else st1)
      in st2\<lparr>timestamp := Some now\<rparr>)"

definition clear_error :: "instant \<Rightarrow> loading_fields \<Rightarrow> loading_fields" where
  "clear_error now st = st\<lparr>error := None, timestamp := Some now\<rparr>"

text \<open>
  A sequence of \<open>increment_processed\<close> calls on one store, each with its own clock reading,
  increment, sample word, stride and cap. An exception ends one call, not the store: the
  next call works on what the failed one left.
\<close>

type_synonym increment_call = "instant \<times> int \<times> pystr option \<times> int \<times> int"

fun increment_calls_with ::
  "float_arith \<Rightarrow> increment_call list \<Rightarrow> loading_fields \<Rightarrow> loading_fields" where
  "increment_calls_with F [] st = st"
| "increment_calls_with F ((now, increment, sample_word, sample_step, latest_limit) # calls) st =
     increment_calls_with F calls
       (snd (increment_processed_with F now increment sample_word sample_step latest_limit st))"

abbreviation increment_calls :: "increment_call list \<Rightarrow> loading_fields \<Rightarrow> loading_fields" where
  "increment_calls \<equiv> increment_calls_with exact_arith"

definition call_limit :: "increment_call \<Rightarrow> int" where
  "call_limit c = (case c of (now, increment, sample_word, sample_step, latest_limit) \<Rightarrow> latest_limit)"

section \<open>The connection pool: \<^verbatim>\<open>core/db_pool.py\<close>\<close>

text \<open>
  A connection object is known by its identity, a number. The pool record holds the
  attributes of \<open>DatabasePool\<close> (\<open>queue\<close> is the \<open>Queue\<close> object \<open>_pool\<close>, head first);
  \<open>opened\<close> counts the connections \<open>sqlite3.connect\<close> has made for this pool, which gives the
  next identity, and \<open>closed_conns\<close> lists the connections on which \<open>close()\<close> was called.
  The model is sequential: while a call waits on the queue no other thread changes it.
  What a call waits is returned beside its result. A call that blocks for ever returns
  \<open>None\<close>.
\<close>

type_synonym conn = nat

record database_pool =
  db_path :: pystr
  pool_size :: int
  queue :: "conn list"
  initialized :: bool
  opened :: nat
  closed_conns :: "conn list"


text \<open>
  \<open>Queue(maxsize=pool_size)\<close>: \<open>put\<close> without a timeout blocks while a bounded queue
  (\<open>maxsize > 0\<close>) is full. \<open>get(timeout=t)\<close> raises \<open>ValueError\<close> on a negative
  timeout before it looks at the queue, returns the head at once when there is one, and
  otherwise waits \<open>t\<close> and raises \<open>Empty\<close>.
\<close>

definition queue_put :: "conn \<Rightarrow> database_pool \<Rightarrow> database_pool option" where
  "queue_put c p =
     (if 0 < pool_size p \<and> pool_size p \<le> int (length (queue p)) then None
      else Some (p\<lparr>queue := queue p @ [c]\<rparr>))"

definition queue_get :: "rat \<Rightarrow> database_pool \<Rightarrow> ((exn + conn) \<times> rat) \<times> database_pool" where
  "queue_get timeout p =
     (if timeout < 0 then ((Inl ValueError, 0), p)
      else case queue p of
             [] \<Rightarrow> ((Inl Empty, timeout), p)
           | c # cs \<Rightarrow> ((Inr c, 0), p\<lparr>queue := cs\<rparr>))"



definition get_connection ::
  "rat \<Rightarrow> database_pool \<Rightarrow> ((exn + conn option) \<times> rat) \<times> database_pool" where
  "get_connection timeout p =
     (case queue_get timeout p of
        ((Inr c, waited), p') \<Rightarrow> ((Inr (Some c), waited), p')
      | ((Inl Empty, waited), p') \<Rightarrow> ((Inr None, waited), p')
      | ((Inl e, waited), p') \<Rightarrow> ((Inl e, waited), p'))"

definition return_connection :: "conn option \<Rightarrow> database_pool \<Rightarrow> database_pool option" where
  "return_connection c p = (case c of None \<Rightarrow> Some p | Some c' \<Rightarrow> queue_put c' p)"

text \<open>
  The context manager \<open>get_db\<close> with the body of its \<open>with\<close> block: the body gets the
  connection and works on the rest of the program state \<open>'w\<close>; the connection goes back to
  the pool on every exit of the body. \<open>get_connection()\<close> is called with its default
  timeout of 5 seconds.
\<close>

definition get_db ::
  "(conn \<Rightarrow> 'w \<Rightarrow> (exn + 'a) \<times> 'w) \<Rightarrow> database_pool \<Rightarrow> 'w
     \<Rightarrow> ((exn + 'a) \<times> database_pool \<times> 'w) option" where
  "get_db body p w =
     (case get_connection 5 p of
        ((Inl e, waited), p1) \<Rightarrow> Some (Inl e, p1, w)
      | ((Inr None, waited), p1) \<Rightarrow> Some (Inl PoolUnavailable, p1, w)
      | ((Inr (Some c), waited), p1) \<Rightarrow>
          (case body c w of
             (r, w1) \<Rightarrow>
               (case return_connection (Some c) p1 of
                  None \<Rightarrow> None
                | Some p2 \<Rightarrow> Some (r, p2, w1))))"



section \<open>The application state: \<^verbatim>\<open>core/app_state.py\<close>\<close>

record app_state =
  data_loaded :: bool
  data_loading :: bool
  current_excel_file :: "pystr option"
  start_time :: "rat option"
  db_pool :: "database_pool option"
  activity_db_pool :: "database_pool option"

section \<open>The loader: \<^verbatim>\<open>core/database.py\<close>\<close>

subsection \<open>The workbook and the database file\<close>

text \<open>
  A cell value is \<open>None\<close> or a scalar; a scalar is represented by its \<open>str()\<close> rendering,
  the only thing the loader takes from it. A worksheet has its title, the \<open>max_row\<close> and
  \<open>max_column\<close> that openpyxl reports (either may be \<open>None\<close>), and the rows that
  \<open>iter_rows(values_only=True)\<close> yields.
\<close>

type_synonym cell = "pystr option"

record worksheet =
  title :: pystr
  max_row :: "nat option"
  max_column :: "nat option"
  rows :: "cell list list"

type_synonym workbook = "worksheet list"

definition wb_getitem :: "workbook \<Rightarrow> pystr \<Rightarrow> worksheet option" where
  "wb_getitem wb name = find (\<lambda>ws. title ws = name) wb"

text \<open>
  A row of the table \<open>entries\<close> without its \<open>id\<close>, which SQLite assigns in insertion order.
  The file at \<open>SQLITE_DB_PATH\<close> is absent, is not a database, or is a database in which
  the table \<open>entries\<close> is missing (\<open>None\<close>) or holds its committed rows. Storage
  statements on a database succeed; indexes and pragmas do not change the rows and are not
  modelled.
\<close>

record entry =
  word_norm :: pystr
  word :: "pystr option"
  phonetic :: "pystr option"
  meaning :: "pystr option"
  sheet :: pystr
  row_index :: int

datatype db_file = Absent | Corrupt | Database "entry list option"

text \<open>
  The module global \<open>loading_cancelled\<close> is written by other threads and the clock moves
  on its own, so both are inputs: \<open>cancel_at env k\<close> is the value of the flag read at the
  \<open>k\<close>-th poll of a run, \<open>utcnow env k\<close> the \<open>k\<close>-th clock reading of the run.
\<close>

record env =
  cancel_at :: "nat \<Rightarrow> bool"
  utcnow :: "nat \<Rightarrow> instant"

record world =
  app :: app_state
  loading_state :: loading_fields
  loading_thread :: "(nat \<times> pystr) option"
  threads :: "(nat \<times> pystr) list"
  db_file :: db_file
  detached :: "conn \<Rightarrow> db_file option"

text \<open>
  \<open>threads\<close> lists the threads started so far, each with its number and the file path
  given to \<open>loader_worker\<close>; \<open>loading_thread\<close> is the module global of that name. Calls
  to the logger are not part of the modelled state.

  \<open>db_file\<close> is the file now at \<open>SQLITE_DB_PATH\<close>. A connection of \<open>app_state.db_pool\<close>
  keeps open the file that was at the path when \<open>sqlite3.connect\<close> made it. When that file
  has since been removed from the path, the connection still reads it and not whatever is
  at the path now: \<open>detached w c = Some f\<close> says that connection \<open>c\<close> has open the removed
  file \<open>f\<close>, and \<open>detached w c = None\<close> that it has open the file at the path.
\<close>

subsection \<open>Counting the rows: \<^verbatim>\<open>compute_total_rows\<close>\<close>

text \<open>The argument is what \<open>load_workbook\<close> gives: \<open>None\<close> when it raises.\<close>

definition compute_total_rows :: "workbook option \<Rightarrow> int" where
  "compute_total_rows wb =
     (case wb of
        None \<Rightarrow> 0
      | Some sheets \<Rightarrow>
          (\<Sum>ws\<leftarrow>sheets. case max_row ws of None \<Rightarrow> 0 | Some n \<Rightarrow> int n))"

subsection \<open>The rebuild: \<^verbatim>\<open>_rebuild_sqlite_from_excel\<close>\<close>

text \<open>
  The word column: \<^verbatim>\<open>max_cols = ws.max_column or 1\<close>, then column 1 when there is more
  than one column and column 0 otherwise.
\<close>

definition word_col_idx_of :: "worksheet \<Rightarrow> nat" where
  "word_col_idx_of ws =
     (let max_cols = (case max_column ws of None \<Rightarrow> 1 | Some m \<Rightarrow> if m = 0 then 1 else m)
      in if max_cols > 1 then 1 else 0)"

definition cell_at :: "nat \<Rightarrow> cell list \<Rightarrow> cell" where
  "cell_at i row = (if i < length row then row ! i else None)"

definition display_word_of :: "nat \<Rightarrow> cell list \<Rightarrow> pystr" where
  "display_word_of word_col_idx row =
     (case cell_at word_col_idx row of None \<Rightarrow> [] | Some raw \<Rightarrow> strip raw)"

definition make_entry :: "pystr \<Rightarrow> nat \<Rightarrow> nat \<Rightarrow> cell list \<Rightarrow> entry" where
  "make_entry sheet_name word_col_idx row_idx row =
     (let display_word = display_word_of word_col_idx row;
          norm = normalize_word (Some display_word)
      in \<lparr>word_norm = norm,
          word = (if display_word = [] then None else Some display_word),
          phonetic = cell_at 2 row,
          meaning = cell_at 3 row,
          sheet = sheet_name,
          row_index = int row_idx\<rparr>)"

definition SAMPLE_STEP :: int where
  "SAMPLE_STEP = 10"

definition LATEST_LIMIT :: int where
  "LATEST_LIMIT = 40"

definition cancelled :: exn where
  "cancelled = RuntimeError (text_of ''loading cancelled'')"

text \<open>
  The connection's open transaction is the list of rows inserted and not yet committed;
  \<open>None\<close> when no transaction is open. \<open>executemany\<close> appends to it (an insert outside a
  transaction opens one), \<open>rollback\<close> drops it.
\<close>

definition executemany :: "entry list \<Rightarrow> entry list option \<Rightarrow> entry list option" where
  "executemany rs pend = Some ((case pend of None \<Rightarrow> [] | Some t \<Rightarrow> t) @ rs)"

definition rollback :: "entry list option \<Rightarrow> entry list option" where
  "rollback pend = None"

record load_run =
  ls :: loading_fields
  pending :: "entry list option"
  batch :: "entry list"
  polls :: nat

text \<open>
  The inner loop over the rows of one sheet. An exception leaves the loop with the state
  reached so far. The progress store is called under \<open>exact_arith\<close>: a load counts the
  rows it reads, which keeps the quotient of \<open>increment_processed\<close> far inside the range
  of the floats, where the division does not raise.
\<close>

fun rows_loop ::
  "env \<Rightarrow> pystr \<Rightarrow> nat \<Rightarrow> cell list list \<Rightarrow> nat \<Rightarrow> load_run \<Rightarrow> exn option \<times> load_run" where
  "rows_loop e sheet_name word_col_idx [] row_idx r = (None, r)"
| "rows_loop e sheet_name word_col_idx (row # rest) row_idx r =
     (if cancel_at e (polls r)
      then (Some cancelled, r\<lparr>pending := rollback (pending r), polls := Suc (polls r)\<rparr>)
      else
        (let display_word = display_word_of word_col_idx row;
             batch1 = batch r @ [make_entry sheet_name word_col_idx row_idx row]
         in case increment_processed (utcnow e (Suc (polls r))) 1 (Some display_word)
                   SAMPLE_STEP LATEST_LIMIT (ls r) of
              (Inl x, ls1) \<Rightarrow>
                (Some x, r\<lparr>ls := ls1, batch := batch1, polls := Suc (polls r)\<rparr>)
            | (Inr processed_now, ls1) \<Rightarrow>
                rows_loop e sheet_name word_col_idx rest (Suc row_idx)
                  (if 10000 \<le> length batch1
                   then r\<lparr>ls := ls1, pending := executemany batch1 (pending r), batch := [],
                          polls := Suc (polls r)\<rparr>
                   else r\<lparr>ls := ls1, batch := batch1, polls := Suc (polls r)\<rparr>)))"

text \<open>The outer loop over the sheet titles.\<close>

fun sheets_loop :: "env \<Rightarrow> workbook \<Rightarrow> pystr list \<Rightarrow> load_run \<Rightarrow> exn option \<times> load_run" where
  "sheets_loop e wb [] r = (None, r)"
| "sheets_loop e wb (sheet_name # rest) r =
     (if cancel_at e (polls r)
      then (Some cancelled, r\<lparr>pending := rollback (pending r), polls := Suc (polls r)\<rparr>)
      else
        (let r1 = r\<lparr>ls := set_current_sheet (utcnow e (Suc (polls r))) (Some sheet_name) (ls r),
                     polls := Suc (polls r)\<rparr>
         in case wb_getitem wb sheet_name of
              None \<Rightarrow> (Some KeyError, r1)
            | Some ws \<Rightarrow>
                (let word_col_idx = word_col_idx_of ws
                 in case rows_loop e sheet_name word_col_idx (rows ws) 0 (r1\<lparr>batch := []\<rparr>) of
                      (Some x, r2) \<Rightarrow> (Some x, r2)
                    | (None, r2) \<Rightarrow>
                        sheets_loop e wb rest
                          (if batch r2 \<noteq> []
                           then r2\<lparr>pending := executemany (batch r2) (pending r2), batch := []\<rparr>
                           else r2))))"

text \<open>
  \<open>_rebuild_sqlite_from_excel\<close>, given the workbook that \<open>load_workbook\<close> returned. The
  first statement on a file that is not a database raises. \<open>DROP TABLE IF EXISTS\<close> and
  \<open>CREATE TABLE\<close> run before \<open>BEGIN\<close> and are committed at once. On an exception the
  \<open>finally\<close> block closes the connection, which discards an open transaction.
\<close>

definition rebuild_sqlite_from_excel ::
  "env \<Rightarrow> pystr \<Rightarrow> workbook \<Rightarrow> world \<Rightarrow> exn option \<times> world" where
  "rebuild_sqlite_from_excel e file_path wb w =
     (case db_file w of
        Corrupt \<Rightarrow> (Some DatabaseError, w)
      | _ \<Rightarrow>
          (let w1 = w\<lparr>db_file := Database (Some [])\<rparr>;
               r0 = \<lparr>ls = clear_error (utcnow e 0) (loading_state w1), pending = Some [],
                     batch = [], polls = 0\<rparr>
           in case sheets_loop e wb (map title wb) r0 of
                (Some x, r) \<Rightarrow> (Some x, w1\<lparr>loading_state := ls r\<rparr>)
              | (None, r) \<Rightarrow>
                  (None,
                   w1\<lparr>db_file := Database (Some (case pending r of None \<Rightarrow> [] | Some t \<Rightarrow> t)),
                      loading_state := ls r,
                      app := (app w1)\<lparr>data_loaded := True,
                                       current_excel_file := Some file_path\<rparr>\<rparr>)))"

subsection \<open>The readiness check: \<^verbatim>\<open>is_data_loaded\<close>\<close>

text \<open>
  The query \<^verbatim>\<open>SELECT name FROM sqlite_master WHERE type='table' AND name='entries'\<close>
  and the test \<open>fetchone() is not None\<close>.
\<close>

definition select_entries_table :: "db_file \<Rightarrow> exn + bool" where
  "select_entries_table f =
     (case f of
        Absent \<Rightarrow> Inr False
      | Corrupt \<Rightarrow> Inl DatabaseError
      | Database t \<Rightarrow> Inr (t \<noteq> None))"

text \<open>The database that a pooled connection reads.\<close>

definition conn_database :: "world \<Rightarrow> conn \<Rightarrow> db_file" where
  "conn_database w c = (case detached w c of None \<Rightarrow> db_file w | Some f \<Rightarrow> f)"

text \<open>
  The body of the \<open>with\<close> block: the query runs on the database of the connection; a
  closed connection raises on \<open>cursor()\<close>.
\<close>

definition check_with_conn :: "conn list \<Rightarrow> conn \<Rightarrow> world \<Rightarrow> (exn + unit) \<times> world" where
  "check_with_conn closed_list c w =
     (if c \<in> set closed_list then (Inl ProgrammingError, w)
      else case select_entries_table (conn_database w c) of
             Inl x \<Rightarrow> (Inl x, w)
           | Inr found \<Rightarrow>
               (Inr (), if found then w\<lparr>app := (app w)\<lparr>data_loaded := True\<rparr>\<rparr> else w))"

definition is_data_loaded :: "world \<Rightarrow> (bool \<times> world) option" where
  "is_data_loaded w =
     (if \<not> data_loaded (app w) then
        (if db_file w \<noteq> Absent then
           (case db_pool (app w) of
              Some p \<Rightarrow>
                (case get_db (check_with_conn (closed_conns p)) p w of
                   None \<Rightarrow> None
                 | Some (Inl x, p', w') \<Rightarrow>
                     Some (False, w'\<lparr>app := (app w')\<lparr>db_pool := Some p', data_loaded := False\<rparr>\<rparr>)
                 | Some (Inr u, p', w') \<Rightarrow>
                     Some (data_loaded (app w'), w'\<lparr>app := (app w')\<lparr>db_pool := Some p'\<rparr>\<rparr>))
            | None \<Rightarrow>
                (case select_entries_table (db_file w) of
                   Inl x \<Rightarrow> Some (False, w\<lparr>app := (app w)\<lparr>data_loaded := False\<rparr>\<rparr>)
                 | Inr found \<Rightarrow>
                     if found then Some (True, w\<lparr>app := (app w)\<lparr>data_loaded := True\<rparr>\<rparr>)
                     else Some (False, w)))
         else Some (False, w))
      else Some (True, w))"

subsection \<open>Starting and unloading: \<^verbatim>\<open>start_loading\<close>, \<^verbatim>\<open>unload_data\<close>\<close>

definition start_loading :: "pystr \<Rightarrow> world \<Rightarrow> bool \<times> world" where
  "start_loading file_path w =
     (if running (snapshot (loading_state w)) then (False, w)
      else
        (let w1 = w\<lparr>app := (app w)\<lparr>data_loaded := False, current_excel_file := None\<rparr>\<rparr>;
             t = (length (threads w1), file_path)
         in (True, w1\<lparr>loading_thread := Some t, threads := threads w1 @ [t]\<rparr>)))"

text \<open>
  \<open>removable\<close> tells whether \<open>os.remove\<close> succeeds; its exception is caught. Removing
  the file takes it from the path, and every open connection of the pool that had the
  file at the path open keeps that file, now detached.
\<close>

definition pooled_open :: "app_state \<Rightarrow> conn \<Rightarrow> bool" where
  "pooled_open a c =
     (case db_pool a of
        None \<Rightarrow> False
      | Some p \<Rightarrow> c < opened p \<and> c \<notin> set (closed_conns p))"

definition unload_data :: "bool \<Rightarrow> world \<Rightarrow> world" where
  "unload_data removable w =
     (let w1 = w\<lparr>app := (app w)\<lparr>data_loaded := False, current_excel_file := None\<rparr>\<rparr>
      in if db_file w1 \<noteq> Absent \<and> removable
         then w1\<lparr>db_file := Absent,
                 detached := (\<lambda>c. case detached w1 c of
                                      Some f \<Rightarrow> Some f
                                    | None \<Rightarrow> if pooled_open (app w1) c
                                              then Some (db_file w1) else None)\<rparr>
         else w1)"

section \<open>Notions used to state the properties\<close>

subsection \<open>The normalization rule as the specification words it\<close>

text \<open>
  The rule: every maximal run of characters other than ASCII letters, hyphen and apostrophe
  is replaced by a single space, the result is trimmed and lowercased. \<open>runs\<close> cuts a text
  into its maximal runs of characters of one kind, \<open>replace_run\<close> turns a run of the other
  characters into one space.
\<close>

definition same_class :: "nat \<Rightarrow> nat \<Rightarrow> bool" where
  "same_class c d = (word_char c = word_char d)"

function runs :: "pystr \<Rightarrow> pystr list" where
  "runs [] = []"
| "runs (c # cs) = (c # takeWhile (same_class c) cs) # runs (dropWhile (same_class c) cs)"
  by pat_completeness auto
termination
  by (relation "measure length") (auto simp: length_dropWhile_le less_Suc_eq_le)

definition replace_run :: "pystr \<Rightarrow> pystr" where
  "replace_run r = (case r of [] \<Rightarrow> [] | c # cs \<Rightarrow> if word_char c then r else [32])"

definition spec_normalize :: "pystr \<Rightarrow> pystr" where
  "spec_normalize x = lower (strip (concat (map replace_run (runs x))))"

text \<open>
  A text is \<open>collapsed\<close> when it holds only characters of the class and single spaces,
  never two spaces in a row.
\<close>

fun collapsed :: "pystr \<Rightarrow> bool" where
  "collapsed [] = True"
| "collapsed [c] = (word_char c \<or> c = 32)"
| "collapsed (c # d # cs) =
     ((word_char c \<or> c = 32) \<and> \<not> (c = 32 \<and> d = 32) \<and> collapsed (d # cs))"

subsection \<open>The rows and the poll points of a workbook\<close>

text \<open>
  \<open>sheet_entries\<close> are the records of the rows of one sheet, numbered from 0;
  \<open>all_entries\<close> those of the whole workbook, sheet after sheet. A full run polls the
  cancellation flag once per sheet and once per row.
\<close>

definition sheet_entries_from :: "nat \<Rightarrow> pystr \<Rightarrow> nat \<Rightarrow> cell list list \<Rightarrow> entry list" where
  "sheet_entries_from i sheet_name word_col_idx rs =
     map (\<lambda>(k, row). make_entry sheet_name word_col_idx k row) (enumerate i rs)"

definition sheet_entries :: "worksheet \<Rightarrow> entry list" where
  "sheet_entries ws = sheet_entries_from 0 (title ws) (word_col_idx_of ws) (rows ws)"

definition all_entries :: "workbook \<Rightarrow> entry list" where
  "all_entries wb = concat (map sheet_entries wb)"

definition poll_points :: "workbook \<Rightarrow> nat" where
  "poll_points wb = (\<Sum>ws\<leftarrow>wb. Suc (length (rows ws)))"

subsection \<open>A queue within its capacity\<close>

definition within_capacity :: "database_pool \<Rightarrow> bool" where
  "within_capacity p = (pool_size p \<le> 0 \<or> int (length (queue p)) \<le> pool_size p)"

section \<open>Word normalization: proofs\<close>

lemma space_not_word: "is_space c \<Longrightarrow> \<not> word_char c"
  by (auto simp: is_space_def word_char_def)

lemma is_space_32 [simp]: "is_space 32"
  by (simp add: is_space_def)

lemma not_word_32 [simp]: "\<not> word_char 32"
  by (simp add: word_char_def)

lemma re_sub_word_prefix:
  "\<forall>c\<in>set ws. word_char c \<Longrightarrow> re_sub_nonword (ws @ rest) = ws @ re_sub_nonword rest"
  by (induction ws) auto

lemma dropWhile_nonword_start:
  "dropWhile nonword cs = d # ds \<Longrightarrow> word_char d"
  using hd_dropWhile[of nonword cs] by auto

lemma re_sub_after_run:
  "re_sub_nonword (dropWhile nonword cs) = d # ds \<Longrightarrow> word_char d"
  by (cases "dropWhile nonword cs") (auto dest: dropWhile_nonword_start split: if_splits)

lemma collapsed_re_sub: "collapsed (re_sub_nonword s)"
proof (induction s rule: re_sub_nonword.induct)
  case 1
  show ?case by simp
next
  case (2 c cs)
  show ?case
  proof (cases "word_char c")
    case True
    with 2 show ?thesis by (cases "re_sub_nonword cs") auto
  next
    case False
    with 2 show ?thesis
      by (cases "re_sub_nonword (dropWhile nonword cs)") (auto dest: re_sub_after_run)
  qed
qed

lemma lstrip_re_sub: "lstrip (re_sub_nonword s) = re_sub_nonword (dropWhile nonword s)"
proof (cases s)
  case Nil
  then show ?thesis by (simp add: lstrip_def)
next
  case (Cons c cs)
  show ?thesis
  proof (cases "word_char c")
    case True
    with Cons show ?thesis by (auto simp: lstrip_def dest: space_not_word)
  next
    case False
    have "lstrip (re_sub_nonword (dropWhile nonword cs)) = re_sub_nonword (dropWhile nonword cs)"
      by (cases "re_sub_nonword (dropWhile nonword cs)")
         (auto simp: lstrip_def dest: re_sub_after_run space_not_word)
    with Cons False show ?thesis by (simp add: lstrip_def)
  qed
qed

lemma dropWhile_nonword_lstrip: "dropWhile nonword (lstrip s) = dropWhile nonword s"
  by (induction s) (auto simp: lstrip_def dest: space_not_word)

lemma rstrip_Nil_iff: "rstrip s = [] \<longleftrightarrow> (\<forall>c\<in>set s. is_space c)"
  by (induction s) (auto split: list.splits)

lemma rstrip_Cons:
  "rstrip (c # cs) = (if is_space c \<and> rstrip cs = [] then [] else c # rstrip cs)"
  by (auto split: list.splits)

lemma dropWhile_nonword_rstrip: "dropWhile nonword (rstrip s) = rstrip (dropWhile nonword s)"
proof (induction s)
  case Nil
  show ?case by simp
next
  case (Cons c cs)
  show ?case
  proof (cases "word_char c")
    case True
    then have "\<not> is_space c" using space_not_word by blast
    with True show ?thesis by (simp add: rstrip_Cons del: rstrip.simps)
  next
    case False
    with Cons show ?thesis by (auto simp: rstrip_Cons simp del: rstrip.simps)
  qed
qed

lemma re_sub_all_nonword:
  assumes "\<forall>c\<in>set s. \<not> word_char c"
  shows "re_sub_nonword s = (if s = [] then [] else [32])"
proof (cases s)
  case Nil
  then show ?thesis by simp
next
  case (Cons c cs)
  with assms have dw: "dropWhile nonword cs = []" by simp
  from Cons assms show ?thesis by (simp add: dw)
qed

lemma rstrip_re_sub: "rstrip (re_sub_nonword (rstrip s)) = rstrip (re_sub_nonword s)"
proof (induction s rule: re_sub_nonword.induct)
  case 1
  show ?case by simp
next
  case (2 c cs)
  show ?case
  proof (cases "rstrip cs = []")
    case True
    then have sp: "\<forall>d\<in>set cs. is_space d" by (simp add: rstrip_Nil_iff)
    then have nw: "\<forall>d\<in>set cs. \<not> word_char d" using space_not_word by blast
    then have dw: "dropWhile nonword cs = []" by simp
    have tail: "rstrip (re_sub_nonword cs) = []"
      using re_sub_all_nonword[OF nw] by simp
    show ?thesis
    proof (cases "word_char c")
      case wc: True
      then have nsp: "\<not> is_space c" using space_not_word by blast
      have "rstrip (c # cs) = [c]" using True nsp by simp
      moreover have "rstrip (re_sub_nonword (c # cs)) = [c]" using wc nsp tail by simp
      ultimately show ?thesis using wc nsp by simp
    next
      case nwc: False
      have l: "rstrip (c # cs) = (if is_space c then [] else [c])" using True by simp
      have r: "rstrip (re_sub_nonword (c # cs)) = []" using nwc by (simp add: dw)
      show ?thesis unfolding l r using nwc by simp
    qed
  next
    case ne: False
    then have l: "rstrip (c # cs) = c # rstrip cs" by (simp add: rstrip_Cons del: rstrip.simps)
    show ?thesis
    proof (cases "word_char c")
      case wc: True
      with 2 have ih: "rstrip (re_sub_nonword (rstrip cs)) = rstrip (re_sub_nonword cs)" by simp
      have "rstrip (re_sub_nonword (c # rstrip cs)) = rstrip (c # re_sub_nonword (rstrip cs))"
        using wc by simp
      also have "\<dots> = rstrip (c # re_sub_nonword cs)"
        using ih by (simp add: rstrip_Cons del: rstrip.simps)
      also have "\<dots> = rstrip (re_sub_nonword (c # cs))" using wc by simp
      finally show ?thesis unfolding l .
    next
      case nwc: False
      with 2 have ih: "rstrip (re_sub_nonword (rstrip (dropWhile nonword cs)))
                 = rstrip (re_sub_nonword (dropWhile nonword cs))" by simp
      have "rstrip (re_sub_nonword (c # rstrip cs))
          = rstrip (32 # re_sub_nonword (rstrip (dropWhile nonword cs)))"
        using nwc by (simp add: dropWhile_nonword_rstrip)
      also have "\<dots> = rstrip (32 # re_sub_nonword (dropWhile nonword cs))"
        using ih by (simp add: rstrip_Cons del: rstrip.simps)
      also have "\<dots> = rstrip (re_sub_nonword (c # cs))" using nwc by simp
      finally show ?thesis unfolding l .
    qed
  qed
qed

lemma strip_re_sub_strip: "strip (re_sub_nonword (strip s)) = strip (re_sub_nonword s)"
proof -
  have "strip (re_sub_nonword (strip s))
      = rstrip (re_sub_nonword (dropWhile nonword (rstrip (lstrip s))))"
    by (simp add: strip_def lstrip_re_sub)
  also have "\<dots> = rstrip (re_sub_nonword (rstrip (dropWhile nonword s)))"
    by (simp add: dropWhile_nonword_rstrip dropWhile_nonword_lstrip)
  also have "\<dots> = rstrip (re_sub_nonword (dropWhile nonword s))"
    by (rule rstrip_re_sub)
  also have "\<dots> = strip (re_sub_nonword s)"
    by (simp add: strip_def lstrip_re_sub)
  finally show ?thesis .
qed

lemma concat_runs: "concat (runs s) = s"
  by (induction s rule: runs.induct) simp_all

lemma same_class_word: "word_char c \<Longrightarrow> same_class c = word_char"
  by (auto simp: same_class_def fun_eq_iff)

lemma same_class_nonword: "\<not> word_char c \<Longrightarrow> same_class c = nonword"
  by (auto simp: same_class_def fun_eq_iff)

lemma re_sub_runs: "re_sub_nonword s = concat (map replace_run (runs s))"
proof (induction s rule: runs.induct)
  case 1
  show ?case by simp
next
  case (2 c cs)
  show ?case
  proof (cases "word_char c")
    case True
    have "re_sub_nonword cs = re_sub_nonword (takeWhile word_char cs @ dropWhile word_char cs)"
      by simp
    also have "\<dots> = takeWhile word_char cs @ re_sub_nonword (dropWhile word_char cs)"
      by (rule re_sub_word_prefix) (auto dest: set_takeWhileD)
    finally show ?thesis using 2 True
      by (simp add: same_class_word replace_run_def)
  next
    case False
    with 2 show ?thesis
      by (simp add: same_class_nonword replace_run_def)
  qed
qed

lemma collapsed_tl: "collapsed (c # cs) \<Longrightarrow> collapsed cs"
  by (cases cs) auto

lemma collapsed_dropWhile: "collapsed s \<Longrightarrow> collapsed (dropWhile P s)"
  by (induction s) (auto dest: collapsed_tl)

lemma rstrip_hd: "rstrip cs = d # ds \<Longrightarrow> \<exists>t. cs = d # t"
  by (cases cs) (auto split: list.splits if_splits)

lemma collapsed_rstrip: "collapsed s \<Longrightarrow> collapsed (rstrip s)"
proof (induction s)
  case Nil
  show ?case by simp
next
  case (Cons c cs)
  then have ih: "collapsed (rstrip cs)" by (auto dest: collapsed_tl)
  show ?case
  proof (cases "rstrip cs")
    case Nil
    with Cons.prems show ?thesis by (cases cs) auto
  next
    case (Cons d ds)
    then obtain t where "cs = d # t" using rstrip_hd by blast
    with Cons ih \<open>collapsed (c # cs)\<close> show ?thesis by simp
  qed
qed

lemma rstrip_idem: "rstrip (rstrip s) = rstrip s"
  by (induction s) (auto split: list.splits)

lemma lstrip_rstrip_lstrip: "lstrip (rstrip (lstrip s)) = rstrip (lstrip s)"
proof (cases "rstrip (lstrip s)")
  case Nil
  then show ?thesis by (simp add: lstrip_def)
next
  case (Cons d ds)
  then obtain t where t: "lstrip s = d # t" using rstrip_hd by blast
  then have "\<not> is_space d" unfolding lstrip_def using hd_dropWhile[of is_space s] by auto
  with Cons show ?thesis by (simp add: lstrip_def)
qed

lemma is_space_lower_char: "is_space (lower_char c) = is_space c"
  by (auto simp: is_space_def lower_char_def)

lemma word_char_lower_char: "word_char (lower_char c) = word_char c"
  by (auto simp: word_char_def lower_char_def)

lemma lower_char_32: "lower_char c = 32 \<longleftrightarrow> c = 32"
  by (auto simp: lower_char_def)

lemma lower_char_idem: "lower_char (lower_char c) = lower_char c"
  by (auto simp: lower_char_def)

lemma lstrip_lower: "lstrip (lower s) = lower (lstrip s)"
  by (induction s) (auto simp: lstrip_def lower_def is_space_lower_char)

lemma rstrip_lower: "rstrip (lower s) = lower (rstrip s)"
  by (induction s) (auto simp: lower_def is_space_lower_char split: list.splits)

lemma collapsed_lower: "collapsed s \<Longrightarrow> collapsed (lower s)"
  by (induction s rule: collapsed.induct)
     (auto simp: lower_def word_char_lower_char lower_char_32)

lemma re_sub_fixed: "collapsed s \<Longrightarrow> rstrip s = s \<Longrightarrow> re_sub_nonword s = s"
proof (induction s rule: collapsed.induct)
  case 1
  show ?case by simp
next
  case (2 c)
  then show ?case by (auto split: if_splits)
next
  case (3 c d cs)
  from "3.prems"(2) have r: "rstrip (d # cs) = d # cs"
    by (auto split: list.splits if_splits)
  from "3.prems"(1) have cd: "collapsed (d # cs)" by simp
  have ih: "re_sub_nonword (d # cs) = d # cs" using "3.IH" cd r by simp
  show ?case
  proof (cases "word_char c")
    case True
    with ih show ?thesis by simp
  next
    case False
    with "3.prems"(1) have "c = 32" "d \<noteq> 32" by auto
    with cd have "word_char d" by (cases cs) auto
    with False ih \<open>c = 32\<close> show ?thesis by simp
  qed
qed


lemma strip_fixed: "lstrip s = s \<Longrightarrow> rstrip s = s \<Longrightarrow> strip s = s"
  by (simp add: strip_def)

lemma lstrip_strip: "lstrip (strip s) = strip s"
  by (simp add: strip_def lstrip_rstrip_lstrip)

lemma rstrip_strip: "rstrip (strip s) = strip s"
  by (simp add: strip_def rstrip_idem)

lemma collapsed_strip: "collapsed s \<Longrightarrow> collapsed (strip s)"
  by (simp add: strip_def lstrip_def collapsed_rstrip collapsed_dropWhile)

lemma lower_idem: "lower (lower s) = lower s"
  by (simp add: lower_def lower_char_idem)

lemma normalize_word_Some: "normalize_word (Some x) = lower (strip (re_sub_nonword x))"
  by (simp add: normalize_word_def strip_re_sub_strip)

lemma normalize_word_fixed:
  assumes "collapsed s" and "lstrip s = s" and "rstrip s = s"
  shows "normalize_word (Some (lower s)) = lower s"
proof -
  let ?n = "lower s"
  have c: "collapsed ?n" using assms(1) by (rule collapsed_lower)
  have l: "lstrip ?n = ?n" using assms(2) by (simp add: lstrip_lower)
  have r: "rstrip ?n = ?n" using assms(3) by (simp add: rstrip_lower)
  have "re_sub_nonword ?n = ?n" using c r by (rule re_sub_fixed)
  moreover have "strip ?n = ?n" using l r by (rule strip_fixed)
  ultimately show ?thesis by (simp add: normalize_word_Some lower_idem)
qed

lemma normalize_word_Some_idem:
  "normalize_word (Some (normalize_word (Some x))) = normalize_word (Some x)"
proof -
  let ?s = "strip (re_sub_nonword x)"
  have "collapsed ?s" by (simp add: collapsed_strip collapsed_re_sub)
  moreover have "lstrip ?s = ?s" by (rule lstrip_strip)
  moreover have "rstrip ?s = ?s" by (rule rstrip_strip)
  ultimately have "normalize_word (Some (lower ?s)) = lower ?s"
    by (rule normalize_word_fixed)
  then show ?thesis by (simp add: normalize_word_Some)
qed

lemma normalize_word_empty: "normalize_word (Some []) = []" "normalize_word None = []"
  by (simp_all add: normalize_word_def strip_def lstrip_def lower_def)

lemma make_entry_word_norm:
  "word_norm (make_entry sheet_name word_col_idx row_idx row)
     = normalize_word (word (make_entry sheet_name word_col_idx row_idx row))"
  by (simp add: make_entry_def Let_def normalize_word_empty)

lemma all_entries_word_norm:
  "en \<in> set (all_entries wb) \<Longrightarrow> word_norm en = normalize_word (word en)"
  by (auto simp: all_entries_def sheet_entries_def sheet_entries_from_def make_entry_word_norm)

lemma dont_stop:
  "normalize_word (Some (text_of '' Don't-Stop! '')) = text_of ''don't-stop''"
  by (simp add: normalize_word_def text_of_def strip_def lstrip_def is_space_def
      word_char_def lower_def lower_char_def)

text \<open>
  C6. Normalization is idempotent: normalizing a normalized word gives the same word, for
  every input of \<open>normalize_word\<close>, the missing word \<open>None\<close> included.
\<close>

theorem normalize_word_idempotent:
  "normalize_word (Some (normalize_word w)) = normalize_word w"
proof (cases w)
  case None
  then show ?thesis by (simp add: normalize_word_def strip_def lstrip_def lower_def)
next
  case (Some x)
  then show ?thesis by (simp only: normalize_word_Some_idem)
qed

theorem normalize_word_idempotent_witness:
  "normalize_word (Some (normalize_word (Some (text_of '' Don't-Stop! ''))))
     = text_of ''don't-stop''"
  using normalize_word_idempotent [of "Some (text_of '' Don't-Stop! '')"]
  by (simp only: dont_stop)

text \<open>
  C5. \<open>normalize_word\<close> computes the normalization rule: it replaces every maximal run of
  characters other than ASCII letters, hyphen and apostrophe by one space, trims and
  lowercases (\<open>spec_normalize\<close>); the cell \<open>" Don't-Stop! "\<close> gives \<open>"don't-stop"\<close>; and in the
  record built for a row, \<open>word_norm\<close> is the normalized form of the stored \<open>word\<close>, a string
  also when the word is empty and stored as \<open>None\<close> (then it is the empty string). The
  same holds for every record of the table that a complete run commits.
\<close>

theorem normalize_word_rule:
  "normalize_word (Some x) = spec_normalize x
   \<and> normalize_word (Some (text_of '' Don't-Stop! '')) = text_of ''don't-stop''
   \<and> word_norm (make_entry sheet_name word_col_idx row_idx row)
       = normalize_word (word (make_entry sheet_name word_col_idx row_idx row))
   \<and> (if word (make_entry sheet_name word_col_idx row_idx row) = None
      then word_norm (make_entry sheet_name word_col_idx row_idx row) = []
      else word (make_entry sheet_name word_col_idx row_idx row)
             = Some (display_word_of word_col_idx row))
   \<and> (\<forall>en\<in>set (all_entries wb). word_norm en = normalize_word (word en))"
proof -
  have "normalize_word (Some x) = spec_normalize x"
    by (simp add: normalize_word_Some spec_normalize_def re_sub_runs)
  moreover have "\<forall>en\<in>set (all_entries wb). word_norm en = normalize_word (word en)"
    by (simp add: all_entries_word_norm)
  ultimately show ?thesis
    by (simp add: dont_stop make_entry_word_norm normalize_word_empty)
       (simp add: make_entry_def Let_def normalize_word_empty)
qed

theorem normalize_word_rule_witness:
  "spec_normalize (text_of ''A  b!!c'') = text_of ''a b c''
   \<and> word (make_entry (text_of ''S'') 1 0 [None, Some (text_of '' Don't-Stop! '')])
       = Some (text_of ''Don't-Stop!'')
   \<and> word_norm (make_entry (text_of ''S'') 1 0 [None, Some (text_of '' Don't-Stop! '')])
       = text_of ''don't-stop''
   \<and> word (make_entry (text_of ''S'') 1 0 [None, None]) = None
   \<and> word_norm (make_entry (text_of ''S'') 1 0 [None, None]) = []"
proof -
  note r1 = normalize_word_rule [of "text_of ''A  b!!c''" "text_of ''S''" 1 0
      "[None, Some (text_of '' Don't-Stop! '')]"]
  note r2 = normalize_word_rule [of "text_of ''A  b!!c''" "text_of ''S''" 1 0 "[None, None]"]
  have a: "normalize_word (Some (text_of ''A  b!!c'')) = text_of ''a b c''"
    by (simp add: normalize_word_def text_of_def strip_def lstrip_def is_space_def
        word_char_def lower_def lower_char_def)
  have b: "display_word_of 1 [None, Some (text_of '' Don't-Stop! '')] = text_of ''Don't-Stop!''"
    by (simp add: display_word_of_def cell_at_def text_of_def strip_def lstrip_def is_space_def)
  have c: "normalize_word (Some (text_of ''Don't-Stop!'')) = text_of ''don't-stop''"
    by (simp add: normalize_word_def text_of_def strip_def lstrip_def is_space_def
        word_char_def lower_def lower_char_def)
  have d: "display_word_of 1 [None, None] = []"
    by (simp add: display_word_of_def cell_at_def)
  have e: "text_of ''Don't-Stop!'' \<noteq> []"
    by (simp add: text_of_def)
  have w1: "word (make_entry (text_of ''S'') 1 0 [None, Some (text_of '' Don't-Stop! '')])
      = Some (text_of ''Don't-Stop!'')"
    unfolding make_entry_def Let_def b using e by simp
  have w2: "word (make_entry (text_of ''S'') 1 0 [None, None]) = None"
    unfolding make_entry_def Let_def d by simp
  have "spec_normalize (text_of ''A  b!!c'') = text_of ''a b c''"
    using r1 [THEN conjunct1] a by simp
  moreover have "word_norm (make_entry (text_of ''S'') 1 0 [None, Some (text_of '' Don't-Stop! '')])
      = text_of ''don't-stop''"
    using r1 [THEN conjunct2, THEN conjunct2, THEN conjunct1] unfolding w1 c .
  moreover have "word_norm (make_entry (text_of ''S'') 1 0 [None, None]) = []"
    using r2 [THEN conjunct2, THEN conjunct2, THEN conjunct2, THEN conjunct1]
    unfolding w2 by simp
  ultimately show ?thesis using w1 w2 by simp
qed


section \<open>The progress store: proofs\<close>

lemma percent_expr_value:
  "percent_expr a b = Inr (Finite (if 0 < b then of_int a / of_int b * 100 else 0))"
  by (simp add: percent_expr_with_def py_truediv_def exact_arith_def)

lemma increment_processed_returns:
  "sample_step \<noteq> 0 \<Longrightarrow>
   fst (increment_processed now increment sample_word sample_step latest_limit st)
     = Inr (processed_words st + increment)"
  by (simp add: increment_processed_with_def percent_expr_value Let_def split: option.splits)

lemma percent_expr_with_guard:
  "tot \<le> 0 \<Longrightarrow> percent_expr_with F processed tot = Inr (Finite 0)"
  by (simp add: percent_expr_with_def)

lemma percent_expr_with_positive:
  "0 < tot \<Longrightarrow>
   percent_expr_with F processed tot
     = (case py_truediv F processed tot of
          Inl x \<Rightarrow> Inl x
        | Inr q \<Rightarrow> Inr (fmul F q (Finite 100)))"
  by (simp add: percent_expr_with_def)

lemma percent_expr_with_no_zero_division:
  "percent_expr_with F processed tot \<noteq> Inl ZeroDivisionError"
  by (simp add: percent_expr_with_def py_truediv_def split: option.splits)

lemma increment_processed_with_stores:
  "percent_expr_with F (processed_words st + increment) (total_words st) = Inr v \<Longrightarrow>
   percent (snd (increment_processed_with F now increment sample_word sample_step
                   latest_limit st)) = v"
  by (simp add: increment_processed_with_def Let_def split: option.splits)

lemma increment_processed_with_total_words:
  "total_words (snd (increment_processed_with F now increment sample_word sample_step
                       latest_limit st)) = total_words st"
  by (simp add: increment_processed_with_def Let_def split: sum.splits option.splits)

lemma increment_processed_with_percent_zero:
  "total_words st \<le> 0 \<Longrightarrow>
   percent (snd (increment_processed_with F now increment sample_word sample_step
                   latest_limit st)) = Finite 0"
  by (rule increment_processed_with_stores) (simp add: percent_expr_with_guard)

lemma increment_calls_with_percent_zero:
  "total_words st \<le> 0 \<Longrightarrow> percent st = Finite 0 \<Longrightarrow>
   percent (increment_calls_with F calls st) = Finite 0"
proof (induction calls arbitrary: st)
  case Nil
  then show ?case by simp
next
  case (Cons c calls)
  obtain now increment sample_word sample_step latest_limit
    where c: "c = (now, increment, sample_word, sample_step, latest_limit)"
    by (cases c) auto
  let ?st = "snd (increment_processed_with F now increment sample_word sample_step
                    latest_limit st)"
  have "total_words ?st \<le> 0"
    using Cons.prems(1) by (simp add: increment_processed_with_total_words)
  moreover have "percent ?st = Finite 0"
    using Cons.prems(1) by (rule increment_processed_with_percent_zero)
  ultimately show ?case using Cons.IH c by simp
qed

text \<open>
  C3. Whatever the float arithmetic \<open>F\<close> does (rounding, \<open>OverflowError\<close> on a quotient
  too large for a float): the percent expression is \<open>0.0\<close> whenever \<open>total \<le> 0\<close>, without
  evaluating the division, and is \<open>processed / total * 100.0\<close> when \<open>total > 0\<close>; it never
  raises \<open>ZeroDivisionError\<close>; every \<open>increment_processed\<close> call stores the value of the
  expression as percent, which is \<open>0.0\<close> when the total of the store is not positive; and
  after \<open>reset_for_file\<close> with a total of 0, percent is \<open>0.0\<close> after every sequence of
  \<open>increment_processed\<close> calls.
\<close>

theorem increment_processed_percent:
  "(tot \<le> 0 \<longrightarrow> percent_expr_with F processed tot = Inr (Finite 0))
   \<and> (0 < tot \<longrightarrow>
        percent_expr_with F processed tot
          = (case py_truediv F processed tot of
               Inl x \<Rightarrow> Inl x
             | Inr q \<Rightarrow> Inr (fmul F q (Finite 100))))
   \<and> percent_expr_with F processed tot \<noteq> Inl ZeroDivisionError
   \<and> (percent_expr_with F (processed_words st + increment) (total_words st) = Inr v \<longrightarrow>
        percent (snd (increment_processed_with F now increment sample_word sample_step
                        latest_limit st)) = v)
   \<and> (total_words st \<le> 0 \<longrightarrow>
        percent (snd (increment_processed_with F now increment sample_word sample_step
                        latest_limit st)) = Finite 0)
   \<and> percent (increment_calls_with F calls (reset_for_file now0 file_name 0 st0)) = Finite 0"
proof -
  have "percent (increment_calls_with F calls (reset_for_file now0 file_name 0 st0)) = Finite 0"
    by (rule increment_calls_with_percent_zero) (simp_all add: reset_for_file_def)
  then show ?thesis
    by (simp add: percent_expr_with_guard percent_expr_with_positive
        percent_expr_with_no_zero_division increment_processed_with_stores
        increment_processed_with_percent_zero)
qed

theorem increment_processed_percent_witness:
  "percent_expr 1 0 = Inr (Finite 0)
   \<and> percent_expr 1 4 = Inr (Finite 25)
   \<and> percent (snd (increment_processed 1 1 (Some (text_of ''a'')) 10 40
       (reset_for_file 0 (text_of ''f.xlsx'') 4 DEFAULT_STATE))) = Finite 25
   \<and> percent (snd (increment_processed 1 1 (Some (text_of ''a'')) 10 40
       (reset_for_file 0 (text_of ''f.xlsx'') 0 DEFAULT_STATE))) = Finite 0"
proof -
  let ?s4 = "reset_for_file 0 (text_of ''f.xlsx'') 4 DEFAULT_STATE"
  let ?s0 = "reset_for_file 0 (text_of ''f.xlsx'') 0 DEFAULT_STATE"
  note a = increment_processed_percent [where F = exact_arith and tot = 0 and processed = 1
      and st = ?s4 and increment = 1 and v = "Finite 25" and now = 1
      and sample_word = "Some (text_of ''a'')" and sample_step = 10 and latest_limit = 40]
  note b = increment_processed_percent [where F = exact_arith and tot = 4 and processed = 1
      and st = ?s0 and increment = 1 and now = 1
      and sample_word = "Some (text_of ''a'')" and sample_step = 10 and latest_limit = 40]
  have q: "percent_expr (processed_words ?s4 + 1) (total_words ?s4) = Inr (Finite 25)"
    by (simp add: percent_expr_value reset_for_file_def DEFAULT_STATE_def)
  have t0: "total_words ?s0 \<le> 0"
    by (simp add: reset_for_file_def DEFAULT_STATE_def)
  have "percent_expr 1 0 = Inr (Finite 0)"
    using a [THEN conjunct1] by simp
  moreover have "percent_expr 1 4 = Inr (Finite 25)"
    using b [THEN conjunct2, THEN conjunct1]
    by (simp add: py_truediv_def exact_arith_def)
  moreover have "percent (snd (increment_processed 1 1 (Some (text_of ''a'')) 10 40 ?s4))
      = Finite 25"
    using a [THEN conjunct2, THEN conjunct2, THEN conjunct2, THEN conjunct1] q by blast
  moreover have "percent (snd (increment_processed 1 1 (Some (text_of ''a'')) 10 40 ?s0))
      = Finite 0"
    using b [THEN conjunct2, THEN conjunct2, THEN conjunct2, THEN conjunct2, THEN conjunct1] t0
    by blast
  ultimately show ?thesis by blast
qed

text \<open>
  A stride of zero with a non-blank sample word: the stride test
  \<open>processed % sample_step\<close> raises, after percent has been stored.
\<close>

lemma increment_processed_stride_zero:
  "fst (increment_processed 1 1 (Some (text_of ''a'')) 0 40
       (reset_for_file 0 (text_of ''f.xlsx'') 0 DEFAULT_STATE)) = Inl ZeroDivisionError"
  by (simp add: increment_processed_with_def percent_expr_value Let_def reset_for_file_def
      DEFAULT_STATE_def text_of_def strip_def lstrip_def is_space_def)

lemma length_slice_from_last:
  "0 < k \<Longrightarrow> k < int (length xs) \<Longrightarrow> length (slice_from (- k) xs) = nat k"
  by (simp add: slice_from_def)

lemma last_slice_from_last:
  assumes "0 < k" and "xs \<noteq> []"
  shows "last (slice_from (- k) xs) = last xs"
proof -
  from assms have "nat (int (length xs) - k) < length xs"
    by (cases xs) auto
  then show ?thesis using assms(1) by (simp add: slice_from_def last_drop)
qed

lemma increment_processed_latest_bound:
  assumes "0 < latest_limit" and "int (length (latest_words st)) \<le> latest_limit"
  shows "int (length (latest_words
           (snd (increment_processed now increment sample_word sample_step latest_limit st))))
         \<le> latest_limit"
  using assms
  by (auto simp: increment_processed_with_def percent_expr_value Let_def length_slice_from_last
      split: option.splits)

text \<open>
  The sample cap for a cap of at least one: if the list is within the cap before a sequence
  of calls that all use this cap, it is within the cap after it.
\<close>

lemma latest_words_bounded:
  assumes "0 < cap" and "int (length (latest_words st)) \<le> cap"
    and "\<forall>c\<in>set calls. call_limit c = cap"
  shows "int (length (latest_words (increment_calls calls st))) \<le> cap"
  using assms
proof (induction calls arbitrary: st)
  case Nil
  then show ?case by simp
next
  case (Cons c calls)
  obtain now increment sample_word sample_step latest_limit
    where c: "c = (now, increment, sample_word, sample_step, latest_limit)"
    by (cases c) auto
  with Cons.prems(3) have lim: "latest_limit = cap" by (simp add: call_limit_def)
  let ?st = "snd (increment_processed now increment sample_word sample_step cap st)"
  have "int (length (latest_words ?st)) \<le> cap"
    using Cons.prems(1,2) by (rule increment_processed_latest_bound)
  with Cons.IH [of ?st] Cons.prems(1,3) show ?case by (simp add: c lim)
qed

text \<open>A sample that is taken under a cap of at least one is the last of the list.\<close>

lemma increment_processed_latest_last:
  assumes "0 < latest_limit" and "sw \<noteq> []" and "strip sw \<noteq> []" and "sample_step \<noteq> 0"
    and "(processed_words st + increment) mod sample_step = 0"
  shows "last (latest_words
           (snd (increment_processed now increment (Some sw) sample_step latest_limit st))) = sw"
  using assms
  by (simp add: increment_processed_with_def percent_expr_value Let_def last_slice_from_last)

text \<open>
  C4, at a cap of zero. On a fresh store three calls with a stride of 1 and the cap 0 leave
  three samples in \<open>latest_words\<close>: the slice \<open>latest[-0:]\<close> is the whole list, so nothing
  is trimmed and the list is longer than the cap.
\<close>

theorem latest_words_cap_zero:
  "latest_words
     (increment_calls
        [(1, 1, Some (text_of ''a''), 1, 0), (2, 1, Some (text_of ''b''), 1, 0),
         (3, 1, Some (text_of ''c''), 1, 0)]
        (reset_for_file 0 (text_of ''f.xlsx'') 3 DEFAULT_STATE))
     = [text_of ''a'', text_of ''b'', text_of ''c'']"
  by (simp add: increment_processed_with_def percent_expr_value Let_def reset_for_file_def
      DEFAULT_STATE_def text_of_def strip_def lstrip_def is_space_def slice_from_def)

text \<open>
  C7, as the code has it. \<open>clear_error\<close> clears the error, stamps the store with the
  current time and leaves running, file, current sheet, processed, total, percent and the
  latest samples as they were.
\<close>

theorem clear_error_frame:
  "error (clear_error now st) = None
   \<and> timestamp (clear_error now st) = Some now
   \<and> running (clear_error now st) = running st
   \<and> file' (clear_error now st) = file' st
   \<and> current_sheet (clear_error now st) = current_sheet st
   \<and> processed_words (clear_error now st) = processed_words st
   \<and> total_words (clear_error now st) = total_words st
   \<and> percent (clear_error now st) = percent st
   \<and> latest_words (clear_error now st) = latest_words st"
  by (simp add: clear_error_def)

text \<open>
  The call the claim C7 does not hold at: a store stamped at time 3 and \<open>clear_error\<close> at
  time 7. The timestamp changes.
\<close>

theorem clear_error_changes_timestamp:
  "timestamp (clear_error 7 (reset_for_file 3 (text_of ''f.xlsx'') 10 DEFAULT_STATE))
     \<noteq> timestamp (reset_for_file 3 (text_of ''f.xlsx'') 10 DEFAULT_STATE)"
  by (simp add: clear_error_def reset_for_file_def DEFAULT_STATE_def)


section \<open>The connection pool: proofs\<close>






lemma get_connection_empty:
  "0 \<le> timeout \<Longrightarrow> queue p = [] \<Longrightarrow> get_connection timeout p = ((Inr None, timeout), p)"
  by (simp add: get_connection_def queue_get_def)

lemma get_connection_head:
  "0 \<le> timeout \<Longrightarrow> queue p = c # cs \<Longrightarrow>
   get_connection timeout p = ((Inr (Some c), 0), p\<lparr>queue := cs\<rparr>)"
  by (simp add: get_connection_def queue_get_def)

lemma get_connection_negative:
  "timeout < 0 \<Longrightarrow> get_connection timeout p = ((Inl ValueError, 0), p)"
  by (simp add: get_connection_def queue_get_def)





text \<open>
  C9, as the code has it. With a timeout that is not negative, \<open>get_connection\<close> on a pool
  with no available connection waits the timeout and returns \<open>None\<close>; it never raises and
  never waits longer than the timeout, whatever the queue holds. The context manager
  \<open>get_db\<close> does not return that value: with no connection available it raises.
\<close>

theorem get_connection_timeout:
  "(0 \<le> timeout \<and> queue p = [] \<longrightarrow> get_connection timeout p = ((Inr None, timeout), p))
   \<and> (0 \<le> timeout \<longrightarrow>
        (\<exists>r waited p'. get_connection timeout p = ((Inr r, waited), p')
           \<and> 0 \<le> waited \<and> waited \<le> timeout))
   \<and> (queue p = [] \<longrightarrow> get_db body p w = Some (Inl PoolUnavailable, p, w))"
proof -
  have "0 \<le> timeout \<longrightarrow>
      (\<exists>r waited p'. get_connection timeout p = ((Inr r, waited), p')
         \<and> 0 \<le> waited \<and> waited \<le> timeout)"
    by (cases "queue p") (simp_all add: get_connection_empty get_connection_head)
  moreover have "queue p = [] \<longrightarrow> get_db body p w = Some (Inl PoolUnavailable, p, w)"
    by (simp add: get_db_def get_connection_empty)
  ultimately show ?thesis by (simp add: get_connection_empty)
qed

theorem get_connection_timeout_witness:
  "let p = \<lparr>db_path = text_of ''db'', pool_size = 1, queue = [], initialized = True,
             opened = 1, closed_conns = []\<rparr>
   in get_connection (1 / 100) p = ((Inr None, 1 / 100), p)
      \<and> get_db (\<lambda>c w. (Inr c, w)) p () = Some (Inl PoolUnavailable, p, ())"
  using get_connection_timeout
    [of "1 / 100" "\<lparr>db_path = text_of ''db'', pool_size = 1, queue = [], initialized = True,
           opened = 1, closed_conns = []\<rparr>" "\<lambda>c w. (Inr c, w)" "()"]
  by (simp add: Let_def)

text \<open>
  Two calls the claim C9 does not hold at, on a pool of size 1 whose connection is checked
  out: \<open>get_db\<close> raises, and \<open>get_connection\<close> with a negative timeout raises
  \<open>ValueError\<close>.
\<close>

theorem get_db_raises:
  "let p = \<lparr>db_path = text_of ''db'', pool_size = 1, queue = [], initialized = True,
             opened = 1, closed_conns = []\<rparr>
   in get_db (\<lambda>c w. (Inr c, w)) p () = Some (Inl PoolUnavailable, p, ())
      \<and> get_connection (- 1) p = ((Inl ValueError, 0), p)"
  by (simp add: Let_def get_db_def get_connection_def queue_get_def)


section \<open>Starting a load and the readiness check: proofs\<close>

lemma start_loading_idle:
  "\<not> running (loading_state w) \<Longrightarrow>
   start_loading file_path w
     = (True,
        w\<lparr>app := (app w)\<lparr>data_loaded := False, current_excel_file := None\<rparr>,
          loading_thread := Some (length (threads w), file_path),
          threads := threads w @ [(length (threads w), file_path)]\<rparr>)"
  by (simp add: start_loading_def snapshot_def Let_def)

text \<open>
  C1. When the snapshot of the progress store reports \<open>running\<close>, \<open>start_loading\<close> returns
  \<open>False\<close> and the state after the call is the state before it: \<open>data_loaded\<close>,
  \<open>current_excel_file\<close>, the progress store, the loader thread reference and the list of
  started threads are unchanged.
\<close>

theorem start_loading_single_flight:
  assumes "running (snapshot (loading_state w))"
  shows "fst (start_loading file_path w) = False
    \<and> data_loaded (app (snd (start_loading file_path w))) = data_loaded (app w)
    \<and> current_excel_file (app (snd (start_loading file_path w))) = current_excel_file (app w)
    \<and> loading_state (snd (start_loading file_path w)) = loading_state w
    \<and> loading_thread (snd (start_loading file_path w)) = loading_thread w
    \<and> threads (snd (start_loading file_path w)) = threads w
    \<and> snd (start_loading file_path w) = w"
  using assms by (simp add: start_loading_def)

theorem start_loading_single_flight_witness:
  "let w = \<lparr>app = \<lparr>data_loaded = True, data_loading = False,
                   current_excel_file = Some (text_of ''a.xlsx''), start_time = None,
                   db_pool = None, activity_db_pool = None\<rparr>,
             loading_state = reset_for_file 3 (text_of ''b.xlsx'') 10 DEFAULT_STATE,
             loading_thread = Some (0, text_of ''b.xlsx''),
             threads = [(0, text_of ''b.xlsx'')],
             db_file = Database (Some []), detached = (\<lambda>c. None)\<rparr>
   in running (snapshot (loading_state w))
      \<and> start_loading (text_of ''c.xlsx'') w = (False, w)"
proof -
  let ?w = "\<lparr>app = \<lparr>data_loaded = True, data_loading = False,
                   current_excel_file = Some (text_of ''a.xlsx''), start_time = None,
                   db_pool = None, activity_db_pool = None\<rparr>,
             loading_state = reset_for_file 3 (text_of ''b.xlsx'') 10 DEFAULT_STATE,
             loading_thread = Some (0, text_of ''b.xlsx''),
             threads = [(0, text_of ''b.xlsx'')],
             db_file = Database (Some []), detached = (\<lambda>c. None)\<rparr>"
  have r: "running (snapshot (loading_state ?w))"
    by (simp add: snapshot_def reset_for_file_def DEFAULT_STATE_def)
  from start_loading_single_flight [OF r, of "text_of ''c.xlsx''"]
  have "start_loading (text_of ''c.xlsx'') ?w = (False, ?w)"
    by (simp add: prod_eq_iff)
  with r show ?thesis by (simp add: Let_def)
qed

lemma get_db_check_head:
  assumes "queue p = c # cs" and "within_capacity p"
  shows "get_db (check_with_conn cl) p w
     = Some (fst (check_with_conn cl c w), p\<lparr>queue := cs @ [c]\<rparr>, snd (check_with_conn cl c w))"
proof -
  have g: "get_connection 5 p = ((Inr (Some c), 0), p\<lparr>queue := cs\<rparr>)"
    using assms(1) by (simp add: get_connection_def queue_get_def)
  have r: "return_connection (Some c) (p\<lparr>queue := cs\<rparr>) = Some (p\<lparr>queue := cs @ [c]\<rparr>)"
    using assms by (auto simp: return_connection_def queue_put_def within_capacity_def)
  show ?thesis by (simp add: get_db_def g r split: prod.splits)
qed

lemma get_db_check_empty:
  assumes "queue p = []"
  shows "get_db (check_with_conn cl) p w = Some (Inl PoolUnavailable, p, w)"
  using assms by (simp add: get_db_def get_connection_def queue_get_def)


text \<open>
  What \<open>is_data_loaded\<close> does when \<open>data_loaded\<close> is false, in every state: it returns,
  and its result is the new value of \<open>data_loaded\<close>. With a pool that value is true
  exactly when a file exists at the path, the pool hands out a connection, the connection
  is open, and the database that this connection has open holds a table \<open>entries\<close>.
\<close>

lemma is_data_loaded_result:
  assumes "\<not> data_loaded (app w)"
    and "case db_pool (app w) of None \<Rightarrow> True | Some p \<Rightarrow> within_capacity p"
  shows "\<exists>w'. is_data_loaded w = Some (data_loaded (app w'), w')
    \<and> (data_loaded (app w') \<longleftrightarrow>
         db_file w \<noteq> Absent
         \<and> (case db_pool (app w) of
              None \<Rightarrow> (\<exists>t. db_file w = Database (Some t))
            | Some p \<Rightarrow>
                (case queue p of
                   [] \<Rightarrow> False
                 | c # cs \<Rightarrow> c \<notin> set (closed_conns p)
                            \<and> (\<exists>t. conn_database w c = Database (Some t)))))
    \<and> db_file w' = db_file w
    \<and> detached w' = detached w
    \<and> loading_state w' = loading_state w
    \<and> loading_thread w' = loading_thread w
    \<and> threads w' = threads w
    \<and> current_excel_file (app w') = current_excel_file (app w)
    \<and> map_option (\<lambda>p. set (queue p)) (db_pool (app w'))
        = map_option (\<lambda>p. set (queue p)) (db_pool (app w))"
proof (cases "db_file w = Absent")
  case True
  with assms(1) show ?thesis
    by (auto simp: is_data_loaded_def split: option.splits list.splits)
next
  case present: False
  show ?thesis
  proof (cases "db_pool (app w)")
    case None
    with assms(1) present show ?thesis
      by (cases "db_file w")
         (auto simp: is_data_loaded_def select_entries_table_def)
  next
    case (Some p)
    with assms(2) have cap: "within_capacity p" by simp
    show ?thesis
    proof (cases "queue p")
      case Nil
      then have "get_db (check_with_conn (closed_conns p)) p w = Some (Inl PoolUnavailable, p, w)"
        by (rule get_db_check_empty)
      with assms(1) present Some Nil show ?thesis
        by (simp add: is_data_loaded_def)
    next
      case (Cons c cs)
      then have g: "get_db (check_with_conn (closed_conns p)) p w
          = Some (fst (check_with_conn (closed_conns p) c w), p\<lparr>queue := cs @ [c]\<rparr>,
                  snd (check_with_conn (closed_conns p) c w))"
        using cap by (rule get_db_check_head)
      show ?thesis
      proof (cases "c \<in> set (closed_conns p)")
        case True
        with assms(1) present Some Cons g show ?thesis
          by (auto simp: is_data_loaded_def check_with_conn_def)
      next
        case False
        with assms(1) present Some Cons g show ?thesis
          by (cases "conn_database w c")
             (auto simp: is_data_loaded_def check_with_conn_def select_entries_table_def)
      qed
    qed
  qed
qed

text \<open>
  C10, as the code has it. When \<open>data_loaded\<close> is false, \<open>is_data_loaded\<close> returns and
  its result is the new value of \<open>data_loaded\<close>. Where there is no pool, or the connection
  that the pool hands out has the file at the database path open, that value is true
  exactly when the file at the path exists and holds a table \<open>entries\<close> and, with a pool,
  the pool hands out a connection and that connection is open. In every other case (no
  file, a file that is not a database, no table, no connection available, a closed
  connection) the result is false and \<open>data_loaded\<close> stays false. Nothing else of the
  state changes, and the pool holds the same connections afterwards. The rows of the
  table play no part: an empty table counts.
\<close>

theorem is_data_loaded_recheck:
  assumes "\<not> data_loaded (app w)"
    and "case db_pool (app w) of None \<Rightarrow> True | Some p \<Rightarrow> within_capacity p"
    and "case db_pool (app w) of
           None \<Rightarrow> True
         | Some p \<Rightarrow> (case queue p of [] \<Rightarrow> True | c # cs \<Rightarrow> detached w c = None)"
  shows "\<exists>w'. is_data_loaded w = Some (data_loaded (app w'), w')
    \<and> (data_loaded (app w') \<longleftrightarrow>
         (\<exists>t. db_file w = Database (Some t))
         \<and> (case db_pool (app w) of
              None \<Rightarrow> True
            | Some p \<Rightarrow> (case queue p of [] \<Rightarrow> False | c # cs \<Rightarrow> c \<notin> set (closed_conns p))))
    \<and> db_file w' = db_file w
    \<and> detached w' = detached w
    \<and> loading_state w' = loading_state w
    \<and> loading_thread w' = loading_thread w
    \<and> threads w' = threads w
    \<and> current_excel_file (app w') = current_excel_file (app w)
    \<and> map_option (\<lambda>p. set (queue p)) (db_pool (app w'))
        = map_option (\<lambda>p. set (queue p)) (db_pool (app w))"
proof -
  from is_data_loaded_result [OF assms(1,2)] obtain w' where
    r: "is_data_loaded w = Some (data_loaded (app w'), w')"
    and v: "data_loaded (app w') \<longleftrightarrow>
         db_file w \<noteq> Absent
         \<and> (case db_pool (app w) of
              None \<Rightarrow> (\<exists>t. db_file w = Database (Some t))
            | Some p \<Rightarrow>
                (case queue p of
                   [] \<Rightarrow> False
                 | c # cs \<Rightarrow> c \<notin> set (closed_conns p)
                            \<and> (\<exists>t. conn_database w c = Database (Some t))))"
    and f: "db_file w' = db_file w" "detached w' = detached w"
      "loading_state w' = loading_state w" "loading_thread w' = loading_thread w"
      "threads w' = threads w" "current_excel_file (app w') = current_excel_file (app w)"
      "map_option (\<lambda>p. set (queue p)) (db_pool (app w'))
        = map_option (\<lambda>p. set (queue p)) (db_pool (app w))"
    by blast
  have "data_loaded (app w') \<longleftrightarrow>
         (\<exists>t. db_file w = Database (Some t))
         \<and> (case db_pool (app w) of
              None \<Rightarrow> True
            | Some p \<Rightarrow> (case queue p of [] \<Rightarrow> False | c # cs \<Rightarrow> c \<notin> set (closed_conns p)))"
    unfolding v using assms(3)
    by (auto simp: conn_database_def split: option.splits list.splits)
  with r f show ?thesis by blast
qed

theorem is_data_loaded_recheck_witness:
  "let p = \<lparr>db_path = text_of ''db'', pool_size = 2, queue = [0, 1], initialized = True,
             opened = 2, closed_conns = []\<rparr>;
       w = \<lparr>app = \<lparr>data_loaded = False, data_loading = False, current_excel_file = None,
                   start_time = None, db_pool = Some p, activity_db_pool = None\<rparr>,
             loading_state = DEFAULT_STATE, loading_thread = None, threads = [],
             db_file = Database (Some []), detached = (\<lambda>c. None)\<rparr>
   in \<not> data_loaded (app w) \<and> within_capacity p \<and> detached w 0 = None
      \<and> (\<exists>w'. is_data_loaded w = Some (True, w') \<and> data_loaded (app w'))"
proof -
  let ?p = "\<lparr>db_path = text_of ''db'', pool_size = 2, queue = [0, 1], initialized = True,
             opened = 2, closed_conns = []\<rparr>"
  let ?w = "\<lparr>app = \<lparr>data_loaded = False, data_loading = False, current_excel_file = None,
                   start_time = None, db_pool = Some ?p, activity_db_pool = None\<rparr>,
             loading_state = DEFAULT_STATE, loading_thread = None, threads = [],
             db_file = Database (Some []), detached = (\<lambda>c. None)\<rparr>"
  have a: "\<not> data_loaded (app ?w)" by simp
  have b: "within_capacity ?p" by (simp add: within_capacity_def)
  then have c: "case db_pool (app ?w) of None \<Rightarrow> True | Some p \<Rightarrow> within_capacity p"
    by simp
  have d: "case db_pool (app ?w) of
           None \<Rightarrow> True
         | Some p \<Rightarrow> (case queue p of [] \<Rightarrow> True | c # cs \<Rightarrow> detached ?w c = None)"
    by simp
  from is_data_loaded_recheck [OF a c d]
  have "\<exists>w'. is_data_loaded ?w = Some (True, w') \<and> data_loaded (app w')"
    by auto
  with a b show ?thesis by (simp add: Let_def)
qed

text \<open>
  Two states the claim C10 does not hold at. In both a file is at the database path and
  holds a table \<open>entries\<close>, \<open>data_loaded\<close> is false, and \<open>is_data_loaded\<close> returns false.
  First: the one connection of the pool is checked out, so \<open>get_db\<close> raises and the
  \<open>except\<close> clause sets \<open>data_loaded\<close> to false. Second: the
  pool made its connection while the file at the path was a database without the table;
  then \<open>unload_data\<close> removed that file, a rebuild made a new file with the table and one
  row, and \<open>start_loading\<close> for a further load cleared \<open>data_loaded\<close>; the connection of
  the pool still reads the removed file.
\<close>

theorem is_data_loaded_false_with_table:
  "(let p = \<lparr>db_path = text_of ''db'', pool_size = 1, queue = [], initialized = True,
              opened = 1, closed_conns = []\<rparr>;
        w = \<lparr>app = \<lparr>data_loaded = False, data_loading = False, current_excel_file = None,
                    start_time = None, db_pool = Some p, activity_db_pool = None\<rparr>,
              loading_state = DEFAULT_STATE, loading_thread = None, threads = [],
              db_file = Database (Some []), detached = (\<lambda>c. None)\<rparr>
    in is_data_loaded w = Some (False, w))
   \<and> (let p = \<lparr>db_path = text_of ''db'', pool_size = 1, queue = [0], initialized = True,
                opened = 1, closed_conns = []\<rparr>;
          w = \<lparr>app = \<lparr>data_loaded = True, data_loading = False,
                      current_excel_file = None, start_time = None, db_pool = Some p,
                      activity_db_pool = None\<rparr>,
                loading_state = DEFAULT_STATE, loading_thread = None, threads = [],
                db_file = Database None, detached = (\<lambda>c. None)\<rparr>;
          go = \<lparr>cancel_at = (\<lambda>k. False), utcnow = (\<lambda>k. k)\<rparr>;
          wb = [\<lparr>title = text_of ''A'', max_row = Some 1, max_column = Some 1,
                 rows = [[Some (text_of ''cat'')]]\<rparr>];
          w1 = unload_data True w;
          w2 = snd (rebuild_sqlite_from_excel go (text_of ''f.xlsx'') wb w1);
          w3 = snd (start_loading (text_of ''g.xlsx'') w2)
      in db_file w3 = Database (Some [make_entry (text_of ''A'') 0 0 [Some (text_of ''cat'')]])
         \<and> data_loaded (app w2) = True
         \<and> data_loaded (app w3) = False
         \<and> map_option fst (is_data_loaded w3) = Some False)"
proof -
  let ?p = "\<lparr>db_path = text_of ''db'', pool_size = 1, queue = [0], initialized = True,
                opened = 1, closed_conns = []\<rparr>"
  let ?w = "\<lparr>app = \<lparr>data_loaded = True, data_loading = False,
                      current_excel_file = None, start_time = None, db_pool = Some ?p,
                      activity_db_pool = None\<rparr>,
                loading_state = DEFAULT_STATE, loading_thread = None, threads = [],
                db_file = Database None, detached = (\<lambda>c. None)\<rparr>"
  let ?go = "\<lparr>cancel_at = (\<lambda>k. False), utcnow = (\<lambda>k. k)\<rparr>"
  let ?wb = "[\<lparr>title = text_of ''A'', max_row = Some 1, max_column = Some 1,
                 rows = [[Some (text_of ''cat'')]]\<rparr>]"
  let ?e = "make_entry (text_of ''A'') 0 0 [Some (text_of ''cat'')]"
  let ?w1 = "unload_data True ?w"
  let ?w2 = "snd (rebuild_sqlite_from_excel ?go (text_of ''f.xlsx'') ?wb ?w1)"
  let ?w3 = "snd (start_loading (text_of ''g.xlsx'') ?w2)"
  have first: "let p = \<lparr>db_path = text_of ''db'', pool_size = 1, queue = [], initialized = True,
              opened = 1, closed_conns = []\<rparr>;
        w = \<lparr>app = \<lparr>data_loaded = False, data_loading = False, current_excel_file = None,
                    start_time = None, db_pool = Some p, activity_db_pool = None\<rparr>,
              loading_state = DEFAULT_STATE, loading_thread = None, threads = [],
              db_file = Database (Some []), detached = (\<lambda>c. None)\<rparr>
    in is_data_loaded w = Some (False, w)"
    by (simp add: Let_def is_data_loaded_def get_db_def get_connection_def queue_get_def)
  have w1: "?w1 = ?w\<lparr>app := (app ?w)\<lparr>data_loaded := False\<rparr>, db_file := Absent,
                       detached := (\<lambda>c. if c = 0 then Some (Database None) else None)\<rparr>"
    by (auto simp: unload_data_def Let_def pooled_open_def fun_eq_iff)
  have inc: "\<exists>n ls1. increment_processed 1 1 (Some (text_of ''cat'')) SAMPLE_STEP LATEST_LIMIT
                 (set_current_sheet 1 (Some (text_of ''A'')) (clear_error 0 DEFAULT_STATE))
               = (Inr n, ls1)"
  proof -
    have "fst (increment_processed 1 1 (Some (text_of ''cat'')) SAMPLE_STEP LATEST_LIMIT
                 (set_current_sheet 1 (Some (text_of ''A'')) (clear_error 0 DEFAULT_STATE)))
          = Inr (processed_words
                   (set_current_sheet 1 (Some (text_of ''A'')) (clear_error 0 DEFAULT_STATE)) + 1)"
      by (rule increment_processed_returns) (simp add: SAMPLE_STEP_def)
    then show ?thesis
      by (cases "increment_processed 1 1 (Some (text_of ''cat'')) SAMPLE_STEP LATEST_LIMIT
                 (set_current_sheet 1 (Some (text_of ''A'')) (clear_error 0 DEFAULT_STATE))")
         auto
  qed
  have dw: "display_word_of 0 [Some (text_of ''cat'')] = text_of ''cat''"
    by (simp add: display_word_of_def cell_at_def text_of_def strip_def lstrip_def is_space_def)
  have w2: "db_file ?w2 = Database (Some [?e]) \<and> data_loaded (app ?w2)
      \<and> \<not> running (loading_state ?w2) \<and> db_pool (app ?w2) = Some ?p
      \<and> detached ?w2 = (\<lambda>c. if c = 0 then Some (Database None) else None)"
    using inc unfolding w1
    by (auto simp: rebuild_sqlite_from_excel_def Let_def wb_getitem_def word_col_idx_of_def
        dw executemany_def clear_error_def set_current_sheet_def DEFAULT_STATE_def
        increment_processed_with_def percent_expr_value split: if_splits)
  have w3: "db_file ?w3 = Database (Some [?e]) \<and> \<not> data_loaded (app ?w3)
      \<and> db_pool (app ?w3) = Some ?p
      \<and> detached ?w3 = (\<lambda>c. if c = 0 then Some (Database None) else None)"
    using w2 by (simp add: start_loading_def snapshot_def Let_def)
  have "map_option fst (is_data_loaded ?w3) = Some False"
    using w3
    by (simp add: is_data_loaded_def get_db_def get_connection_def queue_get_def
        return_connection_def queue_put_def check_with_conn_def conn_database_def
        select_entries_table_def)
  with first w2 w3 show ?thesis by (simp add: Let_def)
qed

section \<open>The rebuild: proofs\<close>

lemma increment_in_loop:
  "\<exists>n ls1. increment_processed now 1 sw SAMPLE_STEP LATEST_LIMIT st = (Inr n, ls1)"
proof -
  have "fst (increment_processed now 1 sw SAMPLE_STEP LATEST_LIMIT st)
      = Inr (processed_words st + 1)"
    by (rule increment_processed_returns) (simp add: SAMPLE_STEP_def)
  then show ?thesis
    by (cases "increment_processed now 1 sw SAMPLE_STEP LATEST_LIMIT st") auto
qed

lemma rows_loop_cancel_now:
  "cancel_at e (polls r) \<Longrightarrow>
   rows_loop e sheet_name word_col_idx (row # rest) i r
     = (Some cancelled, r\<lparr>pending := None, polls := Suc (polls r)\<rparr>)"
  by (simp add: rollback_def)

lemma rows_loop_step:
  assumes "\<not> cancel_at e (polls r)" and "pending r = Some t"
  shows "\<exists>r1. rows_loop e sheet_name word_col_idx (row # rest) i r
               = rows_loop e sheet_name word_col_idx rest (Suc i) r1
     \<and> polls r1 = Suc (polls r)
     \<and> (\<exists>t1. pending r1 = Some t1
           \<and> t1 @ batch r1 = t @ batch r @ [make_entry sheet_name word_col_idx i row])"
proof -
  obtain n ls1 where inc:
    "increment_processed (utcnow e (Suc (polls r))) 1 (Some (display_word_of word_col_idx row))
       SAMPLE_STEP LATEST_LIMIT (ls r) = (Inr n, ls1)"
    using increment_in_loop by blast
  let ?b = "batch r @ [make_entry sheet_name word_col_idx i row]"
  let ?r1 = "if 10000 \<le> length ?b
             then r\<lparr>ls := ls1, pending := executemany ?b (pending r), batch := [],
                    polls := Suc (polls r)\<rparr>
             else r\<lparr>ls := ls1, batch := ?b, polls := Suc (polls r)\<rparr>"
  have "rows_loop e sheet_name word_col_idx (row # rest) i r
      = rows_loop e sheet_name word_col_idx rest (Suc i) ?r1"
    using assms(1) by (simp add: inc Let_def)
  moreover have "polls ?r1 = Suc (polls r)" by simp
  moreover have "\<exists>t1. pending ?r1 = Some t1
           \<and> t1 @ batch ?r1 = t @ batch r @ [make_entry sheet_name word_col_idx i row]"
    using assms(2) by (simp add: executemany_def)
  ultimately show ?thesis by blast
qed

declare rows_loop.simps(2) [simp del]

lemma rows_loop_cancel:
  assumes "\<exists>k<length rws. cancel_at e (polls r + k)" and "pending r = Some t"
  shows "\<exists>r'. rows_loop e sheet_name word_col_idx rws i r = (Some cancelled, r')
            \<and> pending r' = None"
  using assms
proof (induction rws arbitrary: i r t)
  case Nil
  then show ?case by simp
next
  case (Cons row rest)
  show ?case
  proof (cases "cancel_at e (polls r)")
    case True
    then show ?thesis by (simp add: rows_loop_cancel_now)
  next
    case False
    from rows_loop_step [OF False Cons.prems(2)]
    obtain r1 t1 where
      step: "rows_loop e sheet_name word_col_idx (row # rest) i r
               = rows_loop e sheet_name word_col_idx rest (Suc i) r1"
      and p1: "polls r1 = Suc (polls r)" and t1: "pending r1 = Some t1"
      by blast
    from Cons.prems(1) obtain k where k: "k < Suc (length rest)" "cancel_at e (polls r + k)"
      by auto
    with False obtain k' where "k = Suc k'" by (cases k) auto
    with k p1 have "\<exists>j<length rest. cancel_at e (polls r1 + j)" by auto
    from Cons.IH [OF this t1] show ?thesis by (simp only: step)
  qed
qed

lemma sheet_entries_from_Cons:
  "sheet_entries_from i sheet_name word_col_idx (row # rest)
     = make_entry sheet_name word_col_idx i row
         # sheet_entries_from (Suc i) sheet_name word_col_idx rest"
  by (simp add: sheet_entries_from_def)

lemma rows_loop_complete:
  assumes "\<forall>k<length rws. \<not> cancel_at e (polls r + k)" and "pending r = Some t"
  shows "\<exists>r'. rows_loop e sheet_name word_col_idx rws i r = (None, r')
            \<and> polls r' = polls r + length rws
            \<and> (\<exists>t'. pending r' = Some t'
                  \<and> t' @ batch r'
                      = t @ batch r @ sheet_entries_from i sheet_name word_col_idx rws)"
  using assms
proof (induction rws arbitrary: i r t)
  case Nil
  then show ?case by (simp add: sheet_entries_from_def)
next
  case (Cons row rest)
  from Cons.prems(1) have nc: "\<not> cancel_at e (polls r)" by auto
  from rows_loop_step [OF nc Cons.prems(2)]
  obtain r1 t1 where
    step: "rows_loop e sheet_name word_col_idx (row # rest) i r
             = rows_loop e sheet_name word_col_idx rest (Suc i) r1"
    and p1: "polls r1 = Suc (polls r)" and t1: "pending r1 = Some t1"
    and b1: "t1 @ batch r1 = t @ batch r @ [make_entry sheet_name word_col_idx i row]"
    by blast
  have "\<forall>k<length rest. \<not> cancel_at e (polls r1 + k)"
  proof (intro allI impI)
    fix k assume "k < length rest"
    then have "Suc k < length (row # rest)" by simp
    with Cons.prems(1) have "\<not> cancel_at e (polls r + Suc k)" by blast
    then show "\<not> cancel_at e (polls r1 + k)" by (simp add: p1)
  qed
  from Cons.IH [OF this t1, of "Suc i"]
  obtain r' t' where
    res: "rows_loop e sheet_name word_col_idx rest (Suc i) r1 = (None, r')"
    and p': "polls r' = polls r1 + length rest" and t': "pending r' = Some t'"
    and b': "t' @ batch r' = t1 @ batch r1 @ sheet_entries_from (Suc i) sheet_name word_col_idx rest"
    by blast
  have "t' @ batch r'
      = t @ batch r @ sheet_entries_from i sheet_name word_col_idx (row # rest)"
    using b' b1 by (simp add: sheet_entries_from_Cons)
  with res p' t' p1 show ?case by (simp add: step)
qed


lemma sheets_loop_cancel_now:
  "cancel_at e (polls r) \<Longrightarrow>
   sheets_loop e wb (sheet_name # rest) r
     = (Some cancelled, r\<lparr>pending := None, polls := Suc (polls r)\<rparr>)"
  by (simp add: rollback_def)

lemma sheets_loop_sheet_cancel:
  assumes "\<not> cancel_at e (polls r)" and "wb_getitem wb sheet_name = Some ws"
    and "pending r = Some t"
    and "\<exists>k<length (rows ws). cancel_at e (Suc (polls r) + k)"
  shows "\<exists>r'. sheets_loop e wb (sheet_name # rest) r = (Some cancelled, r')
            \<and> pending r' = None"
proof -
  let ?r1 = "r\<lparr>ls := set_current_sheet (utcnow e (Suc (polls r))) (Some sheet_name) (ls r),
               polls := Suc (polls r), batch := []\<rparr>"
  have "\<exists>k<length (rows ws). cancel_at e (polls ?r1 + k)" using assms(4) by simp
  moreover have "pending ?r1 = Some t" using assms(3) by simp
  ultimately obtain r2 where
    "rows_loop e sheet_name (word_col_idx_of ws) (rows ws) 0 ?r1 = (Some cancelled, r2)"
    and "pending r2 = None"
    using rows_loop_cancel by blast
  with assms(1,2) show ?thesis by (simp add: Let_def)
qed

lemma sheets_loop_sheet_complete:
  assumes "\<not> cancel_at e (polls r)" and "wb_getitem wb sheet_name = Some ws"
    and "pending r = Some t"
    and "\<forall>k<length (rows ws). \<not> cancel_at e (Suc (polls r) + k)"
  shows "\<exists>r3. sheets_loop e wb (sheet_name # rest) r = sheets_loop e wb rest r3
            \<and> polls r3 = polls r + Suc (length (rows ws))
            \<and> pending r3
                = Some (t @ sheet_entries_from 0 sheet_name (word_col_idx_of ws) (rows ws))"
proof -
  let ?r1 = "r\<lparr>ls := set_current_sheet (utcnow e (Suc (polls r))) (Some sheet_name) (ls r),
               polls := Suc (polls r), batch := []\<rparr>"
  have "\<forall>k<length (rows ws). \<not> cancel_at e (polls ?r1 + k)" using assms(4) by simp
  moreover have "pending ?r1 = Some t" using assms(3) by simp
  ultimately obtain r2 t2 where
    loop: "rows_loop e sheet_name (word_col_idx_of ws) (rows ws) 0 ?r1 = (None, r2)"
    and p2: "polls r2 = polls ?r1 + length (rows ws)"
    and t2: "pending r2 = Some t2"
    and b2: "t2 @ batch r2
        = t @ batch ?r1 @ sheet_entries_from 0 sheet_name (word_col_idx_of ws) (rows ws)"
    using rows_loop_complete [of "rows ws" e ?r1 t sheet_name "word_col_idx_of ws" 0] by blast
  let ?r3 = "if batch r2 \<noteq> []
             then r2\<lparr>pending := executemany (batch r2) (pending r2), batch := []\<rparr>
             else r2"
  have "sheets_loop e wb (sheet_name # rest) r = sheets_loop e wb rest ?r3"
    using assms(1,2) loop by (simp add: Let_def)
  moreover have "polls ?r3 = polls r + Suc (length (rows ws))" using p2 by simp
  moreover have "pending ?r3
      = Some (t @ sheet_entries_from 0 sheet_name (word_col_idx_of ws) (rows ws))"
    using t2 b2 by (auto simp: executemany_def)
  ultimately show ?thesis by blast
qed

declare sheets_loop.simps(2) [simp del]

lemma poll_points_Cons: "poll_points (ws # wss) = Suc (length (rows ws)) + poll_points wss"
  by (simp add: poll_points_def)

lemma all_entries_Cons: "all_entries (ws # wss) = sheet_entries ws @ all_entries wss"
  by (simp add: all_entries_def)

lemma sheets_loop_complete:
  assumes "\<forall>ws\<in>set wss. wb_getitem wb (title ws) = Some ws"
    and "\<forall>k<poll_points wss. \<not> cancel_at e (polls r + k)"
    and "pending r = Some t"
  shows "\<exists>r'. sheets_loop e wb (map title wss) r = (None, r')
            \<and> polls r' = polls r + poll_points wss
            \<and> pending r' = Some (t @ all_entries wss)"
  using assms
proof (induction wss arbitrary: r t)
  case Nil
  then show ?case by (simp add: poll_points_def all_entries_def)
next
  case (Cons ws wss)
  from Cons.prems(2) have nc: "\<not> cancel_at e (polls r)"
    by (auto simp: poll_points_Cons)
  from Cons.prems(1) have look: "wb_getitem wb (title ws) = Some ws" by simp
  have rows_ok: "\<forall>k<length (rows ws). \<not> cancel_at e (Suc (polls r) + k)"
  proof (intro allI impI)
    fix k assume "k < length (rows ws)"
    then have "Suc k < poll_points (ws # wss)" by (simp add: poll_points_Cons)
    with Cons.prems(2) have "\<not> cancel_at e (polls r + Suc k)" by blast
    then show "\<not> cancel_at e (Suc (polls r) + k)" by simp
  qed
  from sheets_loop_sheet_complete [OF nc look Cons.prems(3) rows_ok, of "map title wss"]
  obtain r3 where
    step: "sheets_loop e wb (title ws # map title wss) r = sheets_loop e wb (map title wss) r3"
    and p3: "polls r3 = polls r + Suc (length (rows ws))"
    and t3: "pending r3 = Some (t @ sheet_entries ws)"
    by (auto simp: sheet_entries_def)
  have rest_ok: "\<forall>k<poll_points wss. \<not> cancel_at e (polls r3 + k)"
  proof (intro allI impI)
    fix k assume "k < poll_points wss"
    then have "Suc (length (rows ws)) + k < poll_points (ws # wss)"
      by (simp add: poll_points_Cons)
    with Cons.prems(2) have "\<not> cancel_at e (polls r + (Suc (length (rows ws)) + k))" by blast
    then show "\<not> cancel_at e (polls r3 + k)" by (simp add: p3 add.assoc)
  qed
  from Cons.prems(1) have "\<forall>x\<in>set wss. wb_getitem wb (title x) = Some x" by simp
  from Cons.IH [OF this rest_ok t3]
  obtain r' where "sheets_loop e wb (map title wss) r3 = (None, r')"
    and "polls r' = polls r3 + poll_points wss"
    and "pending r' = Some ((t @ sheet_entries ws) @ all_entries wss)"
    by blast
  with step p3 show ?case by (simp add: poll_points_Cons all_entries_Cons)
qed

lemma sheets_loop_cancel:
  assumes "\<forall>ws\<in>set wss. wb_getitem wb (title ws) = Some ws"
    and "\<exists>k<poll_points wss. cancel_at e (polls r + k)"
    and "pending r = Some t"
  shows "\<exists>r'. sheets_loop e wb (map title wss) r = (Some cancelled, r') \<and> pending r' = None"
  using assms
proof (induction wss arbitrary: r t)
  case Nil
  then show ?case by (simp add: poll_points_def)
next
  case (Cons ws wss)
  from Cons.prems(1) have look: "wb_getitem wb (title ws) = Some ws" by simp
  show ?case
  proof (cases "cancel_at e (polls r)")
    case True
    then show ?thesis by (simp add: sheets_loop_cancel_now)
  next
    case nc: False
    show ?thesis
    proof (cases "\<exists>k<length (rows ws). cancel_at e (Suc (polls r) + k)")
      case True
      from sheets_loop_sheet_cancel [OF nc look Cons.prems(3) True, of "map title wss"]
      show ?thesis by simp
    next
      case False
      then have rows_ok: "\<forall>k<length (rows ws). \<not> cancel_at e (Suc (polls r) + k)" by blast
      from sheets_loop_sheet_complete [OF nc look Cons.prems(3) rows_ok, of "map title wss"]
      obtain r3 where
        step: "sheets_loop e wb (title ws # map title wss) r
                 = sheets_loop e wb (map title wss) r3"
        and p3: "polls r3 = polls r + Suc (length (rows ws))"
        and t3: "pending r3 = Some (t @ sheet_entries ws)"
        by (auto simp: sheet_entries_def)
      from Cons.prems(2) obtain k where
        k: "k < Suc (length (rows ws)) + poll_points wss" "cancel_at e (polls r + k)"
        by (auto simp: poll_points_Cons)
      have "Suc (length (rows ws)) \<le> k"
      proof (rule ccontr)
        assume "\<not> Suc (length (rows ws)) \<le> k"
        then have small: "k < Suc (length (rows ws))" by simp
        show False
        proof (cases k)
          case 0
          with k(2) nc show False by simp
        next
          case (Suc j)
          with small have "j < length (rows ws)" by simp
          with rows_ok have "\<not> cancel_at e (Suc (polls r) + j)" by blast
          with k(2) Suc show False by simp
        qed
      qed
      then obtain j where j: "k = Suc (length (rows ws)) + j"
        using le_Suc_ex by blast
      with k have "j < poll_points wss" "cancel_at e (polls r3 + j)"
        by (simp_all add: p3 add.assoc)
      then have later: "\<exists>j<poll_points wss. cancel_at e (polls r3 + j)" by blast
      from Cons.prems(1) have "\<forall>x\<in>set wss. wb_getitem wb (title x) = Some x" by simp
      from Cons.IH [OF this later t3] show ?thesis by (simp add: step)
    qed
  qed
qed

lemma wb_getitem_distinct:
  "distinct (map title wb) \<Longrightarrow> ws \<in> set wb \<Longrightarrow> wb_getitem wb (title ws) = Some ws"
  by (induction wb) (auto simp: wb_getitem_def)


text \<open>
  C2. Take a database file that is a database or absent, and a workbook (its sheet titles
  are distinct). If the cancellation flag is seen set at one of the poll points of the
  run, one per sheet and one per row, then the loops end with the transaction rolled back,
  the run raises \<open>RuntimeError("loading cancelled")\<close>, and the table \<open>entries\<close> is left
  with no row. If the flag is seen set at none of them, the run ends normally and the table
  holds the records of all rows of all sheets. So the table never holds a part of the
  rows.
\<close>

theorem rebuild_cancellation_atomic:
  assumes "db_file w \<noteq> Corrupt" and "distinct (map title wb)"
  shows
    "if \<exists>k<poll_points wb. cancel_at e k
     then fst (rebuild_sqlite_from_excel e file_path wb w) = Some cancelled
        \<and> db_file (snd (rebuild_sqlite_from_excel e file_path wb w)) = Database (Some [])
        \<and> app (snd (rebuild_sqlite_from_excel e file_path wb w)) = app w
        \<and> pending (snd (sheets_loop e wb (map title wb)
             \<lparr>ls = clear_error (utcnow e 0) (loading_state w), pending = Some [],
              batch = [], polls = 0\<rparr>)) = None
     else fst (rebuild_sqlite_from_excel e file_path wb w) = None
        \<and> db_file (snd (rebuild_sqlite_from_excel e file_path wb w))
            = Database (Some (all_entries wb))
        \<and> data_loaded (app (snd (rebuild_sqlite_from_excel e file_path wb w)))
        \<and> current_excel_file (app (snd (rebuild_sqlite_from_excel e file_path wb w)))
            = Some file_path"
proof -
  let ?r0 = "\<lparr>ls = clear_error (utcnow e 0) (loading_state w), pending = Some [],
              batch = [], polls = 0\<rparr>"
  have look: "\<forall>ws\<in>set wb. wb_getitem wb (title ws) = Some ws"
    using assms(2) by (simp add: wb_getitem_distinct)
  have p0: "pending ?r0 = Some []" by simp
  show ?thesis
  proof (cases "\<exists>k<poll_points wb. cancel_at e k")
    case True
    then have "\<exists>k<poll_points wb. cancel_at e (polls ?r0 + k)" by simp
    from sheets_loop_cancel [OF look this p0]
    obtain r' where "sheets_loop e wb (map title wb) ?r0 = (Some cancelled, r')"
      and "pending r' = None"
      by blast
    with True assms(1) show ?thesis
      by (simp add: rebuild_sqlite_from_excel_def Let_def split: db_file.splits)
  next
    case False
    then have "\<forall>k<poll_points wb. \<not> cancel_at e (polls ?r0 + k)" by simp
    from sheets_loop_complete [OF look this p0]
    obtain r' where "sheets_loop e wb (map title wb) ?r0 = (None, r')"
      and "pending r' = Some ([] @ all_entries wb)"
      by blast
    with False assms(1) show ?thesis
      by (simp add: rebuild_sqlite_from_excel_def Let_def split: db_file.splits)
  qed
qed

theorem rebuild_cancellation_atomic_witness:
  "let wb = [\<lparr>title = text_of ''A'', max_row = Some 2, max_column = Some 2,
              rows = [[None, Some (text_of ''Cat'')], [None, Some (text_of ''dog '')]]\<rparr>,
             \<lparr>title = text_of ''B'', max_row = Some 1, max_column = Some 1,
              rows = [[Some (text_of ''x'')]]\<rparr>];
       w = \<lparr>app = \<lparr>data_loaded = False, data_loading = False, current_excel_file = None,
                   start_time = None, db_pool = None, activity_db_pool = None\<rparr>,
             loading_state = reset_for_file 0 (text_of ''f.xlsx'') 3 DEFAULT_STATE,
             loading_thread = Some (0, text_of ''f.xlsx''),
             threads = [(0, text_of ''f.xlsx'')],
             db_file = Database (Some [make_entry (text_of ''Old'') 0 0 [Some (text_of ''old'')]]),
             detached = (\<lambda>c. None)\<rparr>;
       stop = \<lparr>cancel_at = (\<lambda>k. 3 \<le> k), utcnow = (\<lambda>k. 100 + k)\<rparr>;
       go = \<lparr>cancel_at = (\<lambda>k. False), utcnow = (\<lambda>k. 100 + k)\<rparr>
   in db_file w \<noteq> Corrupt \<and> distinct (map title wb) \<and> poll_points wb = 5
      \<and> fst (rebuild_sqlite_from_excel stop (text_of ''f.xlsx'') wb w) = Some cancelled
      \<and> db_file (snd (rebuild_sqlite_from_excel stop (text_of ''f.xlsx'') wb w))
          = Database (Some [])
      \<and> fst (rebuild_sqlite_from_excel go (text_of ''f.xlsx'') wb w) = None
      \<and> db_file (snd (rebuild_sqlite_from_excel go (text_of ''f.xlsx'') wb w))
          = Database (Some (all_entries wb))
      \<and> length (all_entries wb) = 3"
proof -
  let ?wb = "[\<lparr>title = text_of ''A'', max_row = Some 2, max_column = Some 2,
              rows = [[None, Some (text_of ''Cat'')], [None, Some (text_of ''dog '')]]\<rparr>,
             \<lparr>title = text_of ''B'', max_row = Some 1, max_column = Some 1,
              rows = [[Some (text_of ''x'')]]\<rparr>]"
  let ?w = "\<lparr>app = \<lparr>data_loaded = False, data_loading = False, current_excel_file = None,
                   start_time = None, db_pool = None, activity_db_pool = None\<rparr>,
             loading_state = reset_for_file 0 (text_of ''f.xlsx'') 3 DEFAULT_STATE,
             loading_thread = Some (0, text_of ''f.xlsx''),
             threads = [(0, text_of ''f.xlsx'')],
             db_file = Database (Some [make_entry (text_of ''Old'') 0 0 [Some (text_of ''old'')]]),
             detached = (\<lambda>c. None)\<rparr>"
  let ?stop = "\<lparr>cancel_at = (\<lambda>k. 3 \<le> k), utcnow = (\<lambda>k. 100 + k)\<rparr>"
  let ?go = "\<lparr>cancel_at = (\<lambda>k. False), utcnow = (\<lambda>k. 100 + k)\<rparr>"
  have a: "db_file ?w \<noteq> Corrupt" by simp
  have b: "distinct (map title ?wb)" by (simp add: text_of_def)
  have c: "poll_points ?wb = 5" by (simp add: poll_points_def)
  have d: "\<exists>k<poll_points ?wb. cancel_at ?stop k"
    unfolding c by (intro exI [of _ 3]) simp
  have e: "\<not> (\<exists>k<poll_points ?wb. cancel_at ?go k)" by simp
  have f: "length (all_entries ?wb) = 3"
    by (simp add: all_entries_def sheet_entries_def sheet_entries_from_def)
  note s = rebuild_cancellation_atomic [OF a b, of ?stop "text_of ''f.xlsx''"]
  note g = rebuild_cancellation_atomic [OF a b, of ?go "text_of ''f.xlsx''"]
  have s': "fst (rebuild_sqlite_from_excel ?stop (text_of ''f.xlsx'') ?wb ?w) = Some cancelled
      \<and> db_file (snd (rebuild_sqlite_from_excel ?stop (text_of ''f.xlsx'') ?wb ?w))
          = Database (Some [])"
    using s unfolding if_P [OF d] by blast
  have g': "fst (rebuild_sqlite_from_excel ?go (text_of ''f.xlsx'') ?wb ?w) = None
      \<and> db_file (snd (rebuild_sqlite_from_excel ?go (text_of ''f.xlsx'') ?wb ?w))
          = Database (Some (all_entries ?wb))"
    using g unfolding if_not_P [OF e] by blast
  from a b c s' g' f show ?thesis unfolding Let_def by blast
qed


end
